theory Spec2Isabelle
  imports Complex_Main
begin

section \<open>PetIBM: Lagrangian body points and boundary dispatch\<close>

text \<open>
  A shallow embedding of \<^verbatim>\<open>src/body/singlebodypoints.cpp\<close> and
  \<^verbatim>\<open>src/boundary/singleboundary.cpp\<close>.

  Conventions of the embedding.
  \<^item> \<^verbatim>\<open>PetscInt\<close> and \<^verbatim>\<open>PetscMPIInt\<close> are 32-bit signed integers, held as \<open>int\<close>
    with the two's-complement wrap-around written out (\<open>wrapInt\<close>) at every
    multiplication and addition of the source that can leave the range. Loop
    counters are incremented only below a bound of the same type and cannot wrap.
  \<^item> \<^verbatim>\<open>PetscReal\<close> is an IEEE double: a number, an infinity or NaN. The comparisons
    are the IEEE ones, false whenever an operand is NaN. A number is held as a
    real; the doubles are the reals that rounding leaves as they are, and every
    addition of the source rounds (\<open>fp_add\<close>). The two zeros are not told apart.
  \<^item> A function returning \<^verbatim>\<open>PetscErrorCode\<close> and writing through reference parameters
    returns the pair of the code and the new values of what it may write; on an
    early \<^verbatim>\<open>SETERRQ\<close> or \<^verbatim>\<open>CHKERRQ\<close> return the values are as they were at that point.
  \<^item> The return code of a call into PETSc or MPI is a parameter of the model; the
    closing \<^verbatim>\<open>MPI_Barrier\<close> of \<^verbatim>\<open>createInfoString\<close> alone is taken to succeed.
  \<^item> Indexing a \<^verbatim>\<open>std::vector\<close> outside its size is undefined in C++. The model
    makes each such access a branch ending in \<open>OUT_OF_BOUNDS\<close>, which is not a
    PETSc code.
\<close>

datatype PetscErrorCode =
    PETSC_SUCCESS
  | PETSC_ERR_FILE_READ
  | PETSC_ERR_FILE_WRITE
  | PETSC_ERR_MAX_VALUE
  | PETSC_ERR_ARG_SIZ
  | PETSC_ERR_LIB
  | OUT_OF_BOUNDS

text \<open>\<open>v[i]\<close> with a signed index: whether the access is inside the vector, and its value.\<close>

definition idx_ok :: "'a list \<Rightarrow> int \<Rightarrow> bool" where
  "idx_ok xs i = (0 \<le> i \<and> i < int (length xs))"

definition nth_int :: "'a list \<Rightarrow> int \<Rightarrow> 'a" where
  "nth_int xs i = xs ! nat i"

text \<open>\<^verbatim>\<open>v[i][j]\<close> on a vector of vectors.\<close>

definition nth2 :: "'a list list \<Rightarrow> int \<Rightarrow> int \<Rightarrow> 'a" where
  "nth2 xss i j = nth_int (nth_int xss i) j"

subsection \<open>Machine integers\<close>

text \<open>
  The value a 32-bit two's-complement register holds for the exact result \<open>x\<close>, the
  range of the type, and the two operations of the source that can overflow.
\<close>

definition wrapInt :: "int \<Rightarrow> int" where
  "wrapInt x = (x + 2 ^ 31) mod 2 ^ 32 - 2 ^ 31"

definition is_PetscInt :: "int \<Rightarrow> bool" where
  "is_PetscInt x = (- (2 ^ 31) \<le> x \<and> x < 2 ^ 31)"

definition addI :: "int \<Rightarrow> int \<Rightarrow> int" where
  "addI x y = wrapInt (x + y)"

definition mulI :: "int \<Rightarrow> int \<Rightarrow> int" where
  "mulI x y = wrapInt (x * y)"

subsection \<open>Doubles and their comparisons\<close>

datatype PetscReal = MInf | Num real | PInf | NaN

text \<open>\<open>x < y\<close> and \<open>x <= y\<close> of IEEE arithmetic; \<open>x >= y\<close> is \<open>y <= x\<close>.\<close>

fun fp_lt :: "PetscReal \<Rightarrow> PetscReal \<Rightarrow> bool" where
  "fp_lt (Num x) (Num y) = (x < y)"
| "fp_lt MInf (Num y) = True"
| "fp_lt MInf PInf = True"
| "fp_lt (Num x) PInf = True"
| "fp_lt _ _ = False"

fun fp_le :: "PetscReal \<Rightarrow> PetscReal \<Rightarrow> bool" where
  "fp_le (Num x) (Num y) = (x \<le> y)"
| "fp_le MInf MInf = True"
| "fp_le MInf (Num y) = True"
| "fp_le MInf PInf = True"
| "fp_le (Num x) PInf = True"
| "fp_le PInf PInf = True"
| "fp_le _ _ = False"

definition fp_ge :: "PetscReal \<Rightarrow> PetscReal \<Rightarrow> bool" where
  "fp_ge x y = fp_le y x"

subsection \<open>The mesh, as far as the body reads it\<close>

text \<open>
  \<^verbatim>\<open>mesh->min[d]\<close>, \<^verbatim>\<open>mesh->max[d]\<close>: bounds of the domain; \<^verbatim>\<open>mesh->coord[f][d]\<close>: the
  coordinate array of field \<open>f\<close> in direction \<open>d\<close>, holding \<^verbatim>\<open>mesh->n[f][d]\<close> entries.
\<close>

record Mesh =
  mesh_min :: "PetscReal list"
  mesh_max :: "PetscReal list"
  mesh_coord :: "PetscReal list list list"
  mesh_n :: "int list list"

subsection \<open>The body\<close>

text \<open>
  The data members of \<^verbatim>\<open>SingleBodyPoints\<close> that its member functions use (most are
  inherited from the base class \<^verbatim>\<open>SingleBodyBase\<close>). The communicator and the PETSc
  handle \<^verbatim>\<open>da\<close> are opaque and left out.
\<close>

record SingleBodyPoints =
  dim :: int
  name :: string
  filePath :: string
  mpiSize :: int
  mpiRank :: int
  nPts :: int
  coords :: "PetscReal list list"
  coords0 :: "PetscReal list list"
  bgPt :: int
  nLclPts :: int
  edPt :: int
  nLclAllProcs :: "int list"
  offsetsAllProcs :: "int list"
  meshIdx :: "int list list"
  info :: string

subsection \<open>\<^verbatim>\<open>std::upper_bound\<close>\<close>

text \<open>
  The binary search of \<^verbatim>\<open><algorithm>\<close> on the range \<open>[first, first + len)\<close> of
  \<open>xs\<close>, with the element type's \<^verbatim>\<open>operator<\<close> as \<open>lt\<close>: it halves the range, going
  left when \<open>val < xs[middle]\<close> and right otherwise, and returns the position it
  ends on.
\<close>

function upper_bound :: "('a \<Rightarrow> 'a \<Rightarrow> bool) \<Rightarrow> 'a list \<Rightarrow> nat \<Rightarrow> nat \<Rightarrow> 'a \<Rightarrow> nat" where
  "upper_bound lt xs first len val =
     (if len = 0 then first
      else if lt val (xs ! (first + len div 2))
           then upper_bound lt xs first (len div 2) val
           else upper_bound lt xs (first + len div 2 + 1) (len - len div 2 - 1) val)"
  by pat_completeness auto
termination
  by (relation "measure (\<lambda>(lt, xs, first, len, val). len)") auto

declare upper_bound.simps [simp del]

subsection \<open>\<^verbatim>\<open>findProc\<close> and \<^verbatim>\<open>getGlobalIndex\<close>\<close>

text \<open>
  Both are \<^verbatim>\<open>const\<close> members writing one reference parameter (\<open>p\<close>, \<open>idx\<close>), which the
  model takes and returns. The products and the sum are \<^verbatim>\<open>PetscInt\<close> arithmetic.
\<close>

definition findProc :: "SingleBodyPoints \<Rightarrow> int \<Rightarrow> int \<Rightarrow> PetscErrorCode \<times> int" where
  "findProc b i p =
     (if i < 0 \<or> i \<ge> nPts b then (PETSC_ERR_ARG_SIZ, p)
      else (PETSC_SUCCESS,
            int (upper_bound (<) (offsetsAllProcs b) 0 (length (offsetsAllProcs b))
                   (mulI i (dim b))) - 1))"

definition getGlobalIndex :: "SingleBodyPoints \<Rightarrow> int \<Rightarrow> int \<Rightarrow> int \<Rightarrow> PetscErrorCode \<times> int" where
  "getGlobalIndex b i dof idx =
     (if i < 0 \<or> i \<ge> nPts b then (PETSC_ERR_ARG_SIZ, idx)
      else if dof < 0 \<or> dof \<ge> dim b then (PETSC_ERR_ARG_SIZ, idx)
      else (PETSC_SUCCESS, addI (mulI i (dim b)) dof))"

subsection \<open>\<^verbatim>\<open>createDMDA\<close>\<close>

text \<open>
  \<^verbatim>\<open>createDMDA\<close> asks PETSc for a 1-D distributed array of \<open>nPts\<close> points with \<open>dim\<close>
  degrees of freedom each (\<^verbatim>\<open>DMDACreate1d\<close>, \<^verbatim>\<open>DMSetUp\<close>) and reads this rank's share
  from \<^verbatim>\<open>DMDAGetLocalInfo\<close> (\<^verbatim>\<open>xs\<close>: first owned point, \<^verbatim>\<open>xm\<close>: number of owned
  points). PETSc is a library outside the repository. \<open>DMDA_local_info M m rank\<close> is
  the share it gives rank \<open>rank\<close> of \<open>m\<close> for \<open>M\<close> points under its regular
  distribution (no partition option given, no ownership ranges passed, as in the
  call here): every rank gets \<open>M / m\<close> points and the first \<open>M % m\<close> ranks one more.
  A set-up that PETSc refuses (fewer points than ranks, for one) is a failing
  \<open>petsc\<close> code of \<open>createDMDA\<close> below.
\<close>

record DMDALocalInfo =
  info_xs :: int
  info_xm :: int

definition DMDA_local_info :: "int \<Rightarrow> int \<Rightarrow> int \<Rightarrow> DMDALocalInfo" where
  "DMDA_local_info M m rank =
     \<lparr> info_xs = (if rank \<ge> M mod m then rank * (M div m) + M mod m
                  else rank * (M div m) + rank),
       info_xm = M div m + (if M mod m > rank then 1 else 0) \<rparr>"

text \<open>
  The first offset loop, \<^verbatim>\<open>for (r = mpiSize - 1; r > 0; r--) offsetsAllProcs[r] =
  nLclAllProcs[r - 1]\<close>, entered with \<open>r\<close>.
\<close>

function offsets_shift :: "int list \<Rightarrow> int \<Rightarrow> int list \<Rightarrow> PetscErrorCode \<times> int list" where
  "offsets_shift nl r off =
     (if r > 0
      then (if idx_ok off r \<and> idx_ok nl (r - 1)
            then offsets_shift nl (r - 1) (off[nat r := nth_int nl (r - 1)])
            else (OUT_OF_BOUNDS, off))
      else (PETSC_SUCCESS, off))"
  by pat_completeness auto
termination
  by (relation "measure (\<lambda>(nl, r, off). nat r)") auto

declare offsets_shift.simps [simp del]

text \<open>
  The second offset loop, \<^verbatim>\<open>for (r = 1; r < mpiSize; r++) offsetsAllProcs[r] +=
  offsetsAllProcs[r - 1]\<close>, entered with \<open>r\<close>.
\<close>

function offsets_accum :: "int \<Rightarrow> int \<Rightarrow> int list \<Rightarrow> PetscErrorCode \<times> int list" where
  "offsets_accum P r off =
     (if r < P
      then (if idx_ok off r \<and> idx_ok off (r - 1)
            then offsets_accum P (r + 1)
                   (off[nat r := addI (nth_int off r) (nth_int off (r - 1))])
            else (OUT_OF_BOUNDS, off))
      else (PETSC_SUCCESS, off))"
  by pat_completeness auto
termination
  by (relation "measure (\<lambda>(P, r, off). nat (P - r))") auto

declare offsets_accum.simps [simp del]

text \<open>
  One rank's call. \<open>petsc\<close> is the code of the first of the three PETSc calls that
  fails (nothing has been written then), \<open>mpi\<close> the code of \<^verbatim>\<open>MPI_Allgather\<close>, which
  runs after \<open>bgPt\<close>, \<open>nLclPts\<close> and \<open>edPt\<close> are set, and \<open>gathered\<close> what it delivers:
  the \<open>nLclPts\<close> of every rank in rank order, written over the front of
  \<^verbatim>\<open>nLclAllProcs\<close>.
\<close>

definition createDMDA ::
  "PetscErrorCode \<Rightarrow> PetscErrorCode \<Rightarrow> int list \<Rightarrow> SingleBodyPoints
     \<Rightarrow> PetscErrorCode \<times> SingleBodyPoints" where
  "createDMDA petsc mpi gathered b =
     (if petsc \<noteq> PETSC_SUCCESS then (petsc, b)
      else
        let lclInfo = DMDA_local_info (nPts b) (mpiSize b) (mpiRank b);
            b1 = b\<lparr> bgPt := info_xs lclInfo, nLclPts := info_xm lclInfo,
                     edPt := addI (info_xs lclInfo) (info_xm lclInfo) \<rparr>
        in if mpi \<noteq> PETSC_SUCCESS then (mpi, b1)
           else if length (nLclAllProcs b1) < length gathered then (OUT_OF_BOUNDS, b1)
           else
             let nl = map (\<lambda>it. mulI it (dim b1))
                        (gathered @ drop (length gathered) (nLclAllProcs b1));
                 b2 = b1\<lparr> nLclAllProcs := nl \<rparr>
             in case offsets_shift nl (mpiSize b2 - 1) (offsetsAllProcs b2) of
                  (e1, off1) \<Rightarrow>
                    if e1 \<noteq> PETSC_SUCCESS then (e1, b2\<lparr> offsetsAllProcs := off1 \<rparr>)
                    else case offsets_accum (mpiSize b2) 1 off1 of
                           (e2, off2) \<Rightarrow> (e2, b2\<lparr> offsetsAllProcs := off2 \<rparr>))"

text \<open>
  One collective run in which PETSc and MPI succeed: \<open>bs\<close> are the bodies of the
  ranks in rank order, and every rank contributes the \<open>nLclPts\<close> it has just set to
  the gathering. The result is the return code and the body of every rank.
\<close>

definition createDMDA_ranks ::
  "SingleBodyPoints list \<Rightarrow> (PetscErrorCode \<times> SingleBodyPoints) list" where
  "createDMDA_ranks bs =
     map (createDMDA PETSC_SUCCESS PETSC_SUCCESS
            (map (\<lambda>b. info_xm (DMDA_local_info (nPts b) (mpiSize b) (mpiRank b))) bs))
       bs"

definition rank_bodies :: "SingleBodyPoints list \<Rightarrow> SingleBodyPoints list" where
  "rank_bodies bs = map snd (createDMDA_ranks bs)"

text \<open>
  The bodies of \<open>P\<close> ranks before the collective run, for \<open>N\<close> markers of dimension
  \<open>D\<close>: rank \<open>r\<close> knows its rank and the size of the communicator, and its two per-rank
  tables have one entry per rank. (\<^verbatim>\<open>createDMDA\<close> writes \<open>P\<close> entries of
  \<^verbatim>\<open>nLclAllProcs\<close> and the entries \<open>1 .. P - 1\<close> of \<^verbatim>\<open>offsetsAllProcs\<close>; the tables are
  allocated by the constructor of the base class, outside the files modelled.)
\<close>

definition on_ranks :: "int \<Rightarrow> int \<Rightarrow> SingleBodyPoints list \<Rightarrow> bool" where
  "on_ranks N D bs =
     (bs \<noteq> [] \<and>
      list_all (\<lambda>r. mpiSize (bs ! r) = int (length bs) \<and> mpiRank (bs ! r) = int r \<and>
                    nPts (bs ! r) = N \<and> dim (bs ! r) = D \<and>
                    length (nLclAllProcs (bs ! r)) = length bs \<and>
                    length (offsetsAllProcs (bs ! r)) = length bs)
        [0..<length bs])"

subsection \<open>\<^verbatim>\<open>updateMeshIdx\<close>\<close>

text \<open>
  \<^verbatim>\<open>std::upper_bound(a, a + n, x) - a - 1\<close> for the array \<open>a\<close> of \<open>n\<close> doubles.
\<close>

definition cell_index :: "PetscReal list \<Rightarrow> int \<Rightarrow> PetscReal \<Rightarrow> int" where
  "cell_index a n x = int (upper_bound fp_lt a 0 (nat n) x) - 1"

text \<open>
  The loop over the dimensions for marker \<open>i\<close>, whose row of \<^verbatim>\<open>meshIdx\<close> is \<open>c\<close>,
  entered with \<open>d\<close>. Only \<^verbatim>\<open>meshIdx\<close> is written, so the loops pass that table along
  (\<open>mi\<close>). The accesses are checked in the order the statement makes them: a test
  that already fails on \<^verbatim>\<open>mesh->min[d]\<close> never reads \<^verbatim>\<open>mesh->max[d]\<close>, and a marker
  outside the domain returns before the coordinate array is touched.
\<close>

function updateMeshIdx_dims ::
  "Mesh \<Rightarrow> SingleBodyPoints \<Rightarrow> int \<Rightarrow> int \<Rightarrow> int \<Rightarrow> int list list
     \<Rightarrow> PetscErrorCode \<times> int list list" where
  "updateMeshIdx_dims mesh b i c d mi =
     (if d < dim b
      then
        if \<not> (idx_ok (mesh_min mesh) d \<and> idx_ok (coords b) i \<and> idx_ok (nth_int (coords b) i) d)
        then (OUT_OF_BOUNDS, mi)
        else if fp_ge (nth_int (mesh_min mesh) d) (nth2 (coords b) i d)
        then (PETSC_ERR_MAX_VALUE, mi)
        else if \<not> idx_ok (mesh_max mesh) d
        then (OUT_OF_BOUNDS, mi)
        else if fp_le (nth_int (mesh_max mesh) d) (nth2 (coords b) i d)
        then (PETSC_ERR_MAX_VALUE, mi)
        else if \<not> (idx_ok (mesh_coord mesh) 4 \<and> idx_ok (nth_int (mesh_coord mesh) 4) d \<and>
                   idx_ok (mesh_n mesh) 4 \<and> idx_ok (nth_int (mesh_n mesh) 4) d \<and>
                   0 \<le> nth2 (mesh_n mesh) 4 d \<and>
                   nth2 (mesh_n mesh) 4 d \<le> int (length (nth2 (mesh_coord mesh) 4 d)) \<and>
                   idx_ok mi c \<and> idx_ok (nth_int mi c) d)
        then (OUT_OF_BOUNDS, mi)
        else updateMeshIdx_dims mesh b i c (d + 1)
               (mi[nat c := (nth_int mi c)[nat d :=
                  cell_index (nth2 (mesh_coord mesh) 4 d) (nth2 (mesh_n mesh) 4 d)
                    (nth2 (coords b) i d)]])
      else (PETSC_SUCCESS, mi))"
  by pat_completeness auto
termination
  by (relation "measure (\<lambda>(mesh, b, i, c, d, mi). nat (dim b - d))") auto

declare updateMeshIdx_dims.simps [simp del]

text \<open>
  The loop over the locally owned markers, \<^verbatim>\<open>for (i = bgPt, c = 0; i < edPt; ++i, ++c)\<close>,
  entered with \<open>i\<close> and \<open>c\<close>.
\<close>

function updateMeshIdx_pts ::
  "Mesh \<Rightarrow> SingleBodyPoints \<Rightarrow> int \<Rightarrow> int \<Rightarrow> int list list \<Rightarrow> PetscErrorCode \<times> int list list" where
  "updateMeshIdx_pts mesh b i c mi =
     (if i < edPt b
      then (case updateMeshIdx_dims mesh b i c 0 mi of
              (e, mi') \<Rightarrow>
                if e \<noteq> PETSC_SUCCESS then (e, mi')
                else updateMeshIdx_pts mesh b (i + 1) (c + 1) mi')
      else (PETSC_SUCCESS, mi))"
  by pat_completeness auto
termination
  by (relation "measure (\<lambda>(mesh, b, i, c, mi). nat (edPt b - i))") auto

declare updateMeshIdx_pts.simps [simp del]

definition updateMeshIdx :: "Mesh \<Rightarrow> SingleBodyPoints \<Rightarrow> PetscErrorCode \<times> SingleBodyPoints" where
  "updateMeshIdx mesh b =
     (case updateMeshIdx_pts mesh b (bgPt b) 0 (meshIdx b) of
        (e, mi) \<Rightarrow> (e, b\<lparr> meshIdx := mi \<rparr>))"

text \<open>
  The sizes under which no access of \<^verbatim>\<open>updateMeshIdx\<close> leaves its array. For the
  mesh: the bounds and the tables of field \<open>4\<close> reach \<open>dim\<close> entries, and
  \<^verbatim>\<open>mesh->n[4][d]\<close> is the length of \<^verbatim>\<open>mesh->coord[4][d]\<close>. For the body: the local range
  lies in the marker list, marker rows reach \<open>dim\<close> entries, and \<^verbatim>\<open>meshIdx\<close> has a row
  of \<open>dim\<close> entries for each local marker (as \<^verbatim>\<open>init\<close> allocates it).
\<close>

definition mesh_fits :: "Mesh \<Rightarrow> SingleBodyPoints \<Rightarrow> bool" where
  "mesh_fits mesh b =
     (dim b \<le> int (length (mesh_min mesh)) \<and> dim b \<le> int (length (mesh_max mesh)) \<and>
      4 < length (mesh_coord mesh) \<and> 4 < length (mesh_n mesh) \<and>
      dim b \<le> int (length (mesh_coord mesh ! 4)) \<and> dim b \<le> int (length (mesh_n mesh ! 4)) \<and>
      list_all (\<lambda>d. mesh_n mesh ! 4 ! d = int (length (mesh_coord mesh ! 4 ! d)))
        [0..<nat (dim b)])"

definition arrays_fit :: "Mesh \<Rightarrow> SingleBodyPoints \<Rightarrow> bool" where
  "arrays_fit mesh b =
     (mesh_fits mesh b \<and>
      0 \<le> bgPt b \<and> edPt b \<le> int (length (coords b)) \<and>
      list_all (\<lambda>row. dim b \<le> int (length row)) (coords b) \<and>
      edPt b - bgPt b \<le> int (length (meshIdx b)) \<and>
      list_all (\<lambda>row. dim b \<le> int (length row)) (meshIdx b))"

text \<open>The value \<^verbatim>\<open>updateMeshIdx\<close> stores for marker \<open>i\<close> in direction \<open>d\<close>.\<close>

definition cell :: "Mesh \<Rightarrow> SingleBodyPoints \<Rightarrow> int \<Rightarrow> int \<Rightarrow> int" where
  "cell mesh b i d =
     cell_index (nth2 (mesh_coord mesh) 4 d) (nth2 (mesh_n mesh) 4 d) (nth2 (coords b) i d)"

text \<open>
  An array of doubles in ascending order: no entry is NaN and each entry is \<open><=\<close>
  every later one.
\<close>

definition ascending :: "PetscReal list \<Rightarrow> bool" where
  "ascending a = (NaN \<notin> set a \<and> sorted_wrt fp_le a)"

text \<open>
  The cell-boundary array of every direction \<open>d < dim\<close> is ascending and spans the
  domain: its first entry is \<open><= mesh->min[d]\<close> and its last \<open>>= mesh->max[d]\<close>.
\<close>

definition coords_span :: "Mesh \<Rightarrow> SingleBodyPoints \<Rightarrow> bool" where
  "coords_span mesh b =
     list_all (\<lambda>d. mesh_coord mesh ! 4 ! d \<noteq> [] \<and> ascending (mesh_coord mesh ! 4 ! d) \<and>
                   fp_le (hd (mesh_coord mesh ! 4 ! d)) (mesh_min mesh ! d) \<and>
                   fp_le (mesh_max mesh ! d) (last (mesh_coord mesh ! 4 ! d)))
       [0..<nat (dim b)]"

text \<open>
  The test at the head of the loop body lets marker \<open>i\<close> pass in direction \<open>d\<close>:
  neither \<^verbatim>\<open>mesh->min[d] >= coords[i][d]\<close> nor \<^verbatim>\<open>mesh->max[d] <= coords[i][d]\<close>.
\<close>

definition inside :: "Mesh \<Rightarrow> SingleBodyPoints \<Rightarrow> int \<Rightarrow> int \<Rightarrow> bool" where
  "inside mesh b i d =
     (\<not> fp_ge (nth_int (mesh_min mesh) d) (nth2 (coords b) i d) \<and>
      \<not> fp_le (nth_int (mesh_max mesh) d) (nth2 (coords b) i d))"

subsection \<open>\<^verbatim>\<open>createInfoString\<close>, \<^verbatim>\<open>init\<close> and \<^verbatim>\<open>writeBody\<close>\<close>

text \<open>Decimal output of an integer, as \<^verbatim>\<open>operator<<\<close> writes a \<^verbatim>\<open>PetscInt\<close>.\<close>

function show_nat :: "nat \<Rightarrow> string" where
  "show_nat n =
     (if n < 10 then [char_of (48 + n)]
      else show_nat (n div 10) @ [char_of (48 + n mod 10)])"
  by pat_completeness auto
termination
  by (relation "measure id") auto

declare show_nat.simps [simp del]

definition show_int :: "int \<Rightarrow> string" where
  "show_int i = (if i < 0 then CHR ''-'' # show_nat (nat (- i)) else show_nat (nat i))"

definition endl :: string where
  "endl = [CHR 0x0A]"

definition tab :: string where
  "tab = [CHR 0x09]"

text \<open>
  \<^verbatim>\<open>createInfoString\<close>: rank 0 writes the header, every rank its own share. The
  closing \<^verbatim>\<open>MPI_Barrier\<close> only synchronises.
\<close>

definition createInfoString :: "SingleBodyPoints \<Rightarrow> PetscErrorCode \<times> SingleBodyPoints" where
  "createInfoString b =
     (let header =
            (if mpiRank b = 0
             then replicate 80 CHR ''='' @ endl @
                  ''Body '' @ name b @ '':'' @ endl @
                  replicate 80 CHR ''='' @ endl @
                  tab @ ''Input mesh file: '' @ filePath b @ endl @ endl @
                  tab @ ''Dimension: '' @ show_int (dim b) @ endl @ endl @
                  tab @ ''Total number of Lagrangian points: '' @ show_int (nPts b) @ endl @ endl @
                  tab @ ''Body is distributed to '' @ show_int (mpiSize b) @ '' processes'' @
                    endl @ endl @
                  tab @ ''Distribution of Lagrangian points:'' @ endl @ endl
             else []);
          ss = header @
            tab @ tab @ ''Rank '' @ show_int (mpiRank b) @ '':'' @ endl @
            tab @ tab @ tab @ ''Number of points: '' @ show_int (nLclPts b) @ endl @
            tab @ tab @ tab @ ''Range of points: ['' @ show_int (bgPt b) @ '', '' @
              show_int (edPt b) @ '')'' @ endl
      in (PETSC_SUCCESS, b\<lparr> info := ss \<rparr>))"

text \<open>
  \<^verbatim>\<open>init\<close>. Its parameter \<open>dim\<close> (here \<open>dim_arg\<close>) hides the data member in the
  dimension check and in the allocation of \<^verbatim>\<open>meshIdx\<close>. The reader
  \<^verbatim>\<open>io::readLagrangianPoints\<close> lies outside the files modelled: \<open>rd\<close> is what it returns and
  stores in \<open>nPts\<close> and \<open>coords\<close>. \<open>petsc\<close>, \<open>mpi\<close> and \<open>gathered\<close> are passed on to
  \<^verbatim>\<open>createDMDA\<close>. The cast \<^verbatim>\<open>(unsigned)dim\<close> is the value modulo \<open>2 ^ 32\<close>.
\<close>

definition init ::
  "int \<Rightarrow> PetscErrorCode \<times> int \<times> PetscReal list list \<Rightarrow> PetscErrorCode \<Rightarrow> PetscErrorCode
     \<Rightarrow> int list \<Rightarrow> SingleBodyPoints \<Rightarrow> PetscErrorCode \<times> SingleBodyPoints" where
  "init dim_arg rd petsc mpi gathered b =
     (case rd of (ierr, n, cs) \<Rightarrow>
        let b1 = b\<lparr> nPts := n, coords := cs \<rparr>
        in if ierr \<noteq> PETSC_SUCCESS then (ierr, b1)
           else if \<not> idx_ok (coords b1) 0 then (OUT_OF_BOUNDS, b1)
           else if dim_arg mod 2 ^ 32 \<noteq> int (length (nth_int (coords b1) 0))
           then (PETSC_ERR_FILE_READ, b1)
           else
             let b2 = b1\<lparr> coords0 := coords b1 \<rparr>
             in case createDMDA petsc mpi gathered b2 of
                  (e, b3) \<Rightarrow>
                    if e \<noteq> PETSC_SUCCESS then (e, b3)
                    else createInfoString
                           (b3\<lparr> meshIdx := replicate (nat (nLclPts b3)) (replicate (nat dim_arg) 0) \<rparr>))"








subsection \<open>Addition of doubles\<close>












subsection \<open>\<^verbatim>\<open>calculateAvgForces\<close>\<close>












subsection \<open>\<^verbatim>\<open>createSingleBoundary\<close>\<close>

text \<open>
  Modelled from the spec: the enumeration \<^verbatim>\<open>type::BCType\<close> is declared in a header
  outside the files modelled. The spec lists five boundary types (none, periodic,
  Dirichlet, Neumann, convective); they are the enumerators the \<^verbatim>\<open>switch\<close> names,
  \<^verbatim>\<open>NOBC\<close>, \<^verbatim>\<open>PERIODIC\<close>, \<^verbatim>\<open>DIRICHLET\<close>, \<^verbatim>\<open>NEUMANN\<close> and \<^verbatim>\<open>CONVECTIVE\<close>. An object of a
  C++ enumeration type can also hold a value of the underlying integer type that is
  none of the enumerators (a cast makes one); \<open>BCType_other\<close> stands for those
  values.
\<close>

datatype BCType = NOBC | PERIODIC | DIRICHLET | NEUMANN | CONVECTIVE | BCType_other int

text \<open>
  The strategy objects: the class constructed and the constructor arguments. The
  types of the location and of the field are parameters.
\<close>

datatype ('l, 'f) SingleBoundary =
    SingleBoundaryBase Mesh 'l 'f PetscReal
  | SingleBoundaryPeriodic Mesh 'l 'f PetscReal
  | SingleBoundaryDirichlet Mesh 'l 'f PetscReal
  | SingleBoundaryNeumann Mesh 'l 'f PetscReal
  | SingleBoundaryConvective Mesh 'l 'f PetscReal

text \<open>
  \<open>singleBd\<close> is the shared pointer passed by reference (\<open>None\<close>: empty). The
  \<^verbatim>\<open>switch\<close> has no \<^verbatim>\<open>default\<close>: any other value goes on to \<^verbatim>\<open>PetscFunctionReturn(0)\<close>.
\<close>

fun createSingleBoundary ::
  "Mesh \<Rightarrow> 'l \<Rightarrow> 'f \<Rightarrow> PetscReal \<Rightarrow> BCType \<Rightarrow> ('l, 'f) SingleBoundary option
     \<Rightarrow> PetscErrorCode \<times> ('l, 'f) SingleBoundary option" where
  "createSingleBoundary mesh loc field val NOBC singleBd =
     (PETSC_SUCCESS, Some (SingleBoundaryBase mesh loc field val))"
| "createSingleBoundary mesh loc field val PERIODIC singleBd =
     (PETSC_SUCCESS, Some (SingleBoundaryPeriodic mesh loc field val))"
| "createSingleBoundary mesh loc field val DIRICHLET singleBd =
     (PETSC_SUCCESS, Some (SingleBoundaryDirichlet mesh loc field val))"
| "createSingleBoundary mesh loc field val NEUMANN singleBd =
     (PETSC_SUCCESS, Some (SingleBoundaryNeumann mesh loc field val))"
| "createSingleBoundary mesh loc field val CONVECTIVE singleBd =
     (PETSC_SUCCESS, Some (SingleBoundaryConvective mesh loc field val))"
| "createSingleBoundary mesh loc field val (BCType_other v) singleBd =
     (PETSC_SUCCESS, singleBd)"

subsection \<open>The discrete delta function\<close>

text \<open>
  Modelled from the spec: the kernel \<^verbatim>\<open>petibm::delta::Roma_et_al_1999(r, h)\<close> is
  declared in \<^verbatim>\<open>petibm/delta.h\<close> and defined outside the files modelled; only its
  unit test \<^verbatim>\<open>tests/misc/delta_test.cpp\<close> is present. The spec describes it as the
  reference kernel evaluated at the displacement scaled by the mesh spacing, zero
  from 1.5 mesh widths on, with peak value 2/3 at distance zero. The definition is
  the three-point function of Roma, Peskin and Berger (1999) that the test names,
  applied to \<open>\<bar>r\<bar> / h\<close>, with no further scaling by \<open>h\<close>.
\<close>

definition Roma_et_al_1999 :: "real \<Rightarrow> real \<Rightarrow> real" where
  "Roma_et_al_1999 r h =
     (let x = \<bar>r\<bar> / h
      in if 3 / 2 \<le> x then 0
         else if 1 / 2 < x then (5 - 3 * x - sqrt (1 - 3 * (1 - x)\<^sup>2)) / 6
         else (1 + sqrt (1 - 3 * x\<^sup>2)) / 3)"

subsection \<open>Example data\<close>

text \<open>
  A two-dimensional body of five markers, as rank 1 of three ranks sees it once it is
  constructed (ranks own 2, 2 and 1 markers).
\<close>

definition body5 :: SingleBodyPoints where
  "body5 = \<lparr> dim = 2, name = ''cyl'', filePath = ''cyl.body'', mpiSize = 3, mpiRank = 1,
     nPts = 5,
     coords = map (map Num) [[1/2, 1/2], [3/2, 1/2], [3/2, 3/2], [1/2, 3/2], [1, 1]],
     coords0 = map (map Num) [[1/2, 1/2], [3/2, 1/2], [3/2, 3/2], [1/2, 3/2], [1, 1]],
     bgPt = 2, nLclPts = 2, edPt = 4,
     nLclAllProcs = [4, 4, 2], offsetsAllProcs = [0, 4, 8],
     meshIdx = [[0, 0], [0, 0]], info = [] \<rparr>"

text \<open>
  A body on rank \<open>r\<close> of \<open>P\<close> before \<^verbatim>\<open>init\<close> has run, with both per-rank tables
  holding one zero per rank.
\<close>

definition fresh_body ::
  "int \<Rightarrow> nat \<Rightarrow> nat \<Rightarrow> int \<Rightarrow> PetscReal list list \<Rightarrow> SingleBodyPoints" where
  "fresh_body D P r N cs =
     \<lparr> dim = D, name = [], filePath = [], mpiSize = int P, mpiRank = int r,
       nPts = N, coords = cs, coords0 = cs, bgPt = 0, nLclPts = 0, edPt = 0,
       nLclAllProcs = replicate P 0, offsetsAllProcs = replicate P 0,
       meshIdx = [], info = [] \<rparr>"

text \<open>The bodies of three ranks that are to share the five markers.\<close>

definition bs3 :: "SingleBodyPoints list" where
  "bs3 = map (\<lambda>r. fresh_body 2 3 r 5 (coords body5)) [0, 1, 2]"

text \<open>
  Two ranks for \<open>2 ^ 31 - 1\<close> markers of dimension 2, and a single rank holding
  them all after \<^verbatim>\<open>createDMDA\<close>: the number of degrees of freedom is beyond the
  largest \<^verbatim>\<open>PetscInt\<close>.
\<close>

definition bs_big :: "SingleBodyPoints list" where
  "bs_big = map (\<lambda>r. fresh_body 2 2 r 2147483647 []) [0, 1]"

definition body_big :: SingleBodyPoints where
  "body_big = (fresh_body 2 1 0 2147483647 [])
     \<lparr> bgPt := 0, nLclPts := 2147483647, edPt := 2147483647, nLclAllProcs := [- 2] \<rparr>"

text \<open>
  A mesh on \<open>[0, 2] \<times> [0, 2]\<close> with cell boundaries \<open>0, 1, 2\<close> in both directions, a
  one-marker body whose first coordinate sits on the boundary \<open>1\<close>, the same body
  with its second coordinate on the upper bound of the domain, and with a first
  coordinate that is NaN.
\<close>

definition mesh2 :: Mesh where
  "mesh2 = \<lparr> mesh_min = [Num 0, Num 0], mesh_max = [Num 2, Num 2],
     mesh_coord = [[], [], [], [], [[Num 0, Num 1, Num 2], [Num 0, Num 1, Num 2]]],
     mesh_n = [[], [], [], [], [3, 3]] \<rparr>"

definition body1 :: SingleBodyPoints where
  "body1 = \<lparr> dim = 2, name = ''pt'', filePath = ''pt.body'', mpiSize = 1, mpiRank = 0,
     nPts = 1, coords = [[Num 1, Num (1/2)]], coords0 = [[Num 1, Num (1/2)]],
     bgPt = 0, nLclPts = 1, edPt = 1,
     nLclAllProcs = [2], offsetsAllProcs = [0],
     meshIdx = [[0, 0]], info = [] \<rparr>"

definition body_edge :: SingleBodyPoints where
  "body_edge = body1 \<lparr> coords := [[Num 1, Num 2]] \<rparr>"

definition body_nan :: SingleBodyPoints where
  "body_nan = body1 \<lparr> coords := [[NaN, Num (1/2)]] \<rparr>"






subsection \<open>Predicates used in the proofs\<close>

text \<open>
  The precondition of the search: along the array, once \<open>val < xs[i]\<close> holds it holds
  for every later entry.
\<close>

definition partitioned :: "('a \<Rightarrow> 'a \<Rightarrow> bool) \<Rightarrow> 'a list \<Rightarrow> 'a \<Rightarrow> bool" where
  "partitioned lt xs val = (\<forall>i j. i \<le> j \<and> j < length xs \<and> lt val (xs ! i) \<longrightarrow> lt val (xs ! j))"

section \<open>Theorems\<close>

subsection \<open>Machine integers, comparisons of doubles and the search\<close>

lemma wrapInt_id: "is_PetscInt x \<Longrightarrow> wrapInt x = x"
  by (simp add: wrapInt_def is_PetscInt_def)

lemma addI_id: "is_PetscInt (x + y) \<Longrightarrow> addI x y = x + y"
  by (simp add: addI_def wrapInt_id)

lemma mulI_id: "is_PetscInt (x * y) \<Longrightarrow> mulI x y = x * y"
  by (simp add: mulI_def wrapInt_id)

lemma fp_not_le: "x \<noteq> NaN \<Longrightarrow> y \<noteq> NaN \<Longrightarrow> (\<not> fp_le x y) = fp_lt y x"
  by (cases x; cases y) auto

lemma fp_not_lt: "x \<noteq> NaN \<Longrightarrow> y \<noteq> NaN \<Longrightarrow> (\<not> fp_lt x y) = fp_le y x"
  by (cases x; cases y) auto

lemma fp_lt_le_trans: "fp_lt x y \<Longrightarrow> fp_le y z \<Longrightarrow> fp_lt x z"
  by (cases x; cases y; cases z) auto

lemma fp_le_lt_trans: "fp_le x y \<Longrightarrow> fp_lt y z \<Longrightarrow> fp_lt x z"
  by (cases x; cases y; cases z) auto

lemma fp_le_trans: "fp_le x y \<Longrightarrow> fp_le y z \<Longrightarrow> fp_le x z"
  by (cases x; cases y; cases z) auto

lemma fp_lt_NaN [simp]: "\<not> fp_lt NaN y" "\<not> fp_lt x NaN"
  by (cases y; simp) (cases x; simp)

lemma fp_le_NaN [simp]: "\<not> fp_le NaN y" "\<not> fp_le x NaN"
  by (cases y; simp) (cases x; simp)

lemma upper_bound_0 [simp]: "upper_bound lt xs first 0 val = first"
  by (simp add: upper_bound.simps)

lemma upper_bound_bounds:
  "first \<le> upper_bound lt xs first len val \<and> upper_bound lt xs first len val \<le> first + len"
proof (induction lt xs first len val rule: upper_bound.induct)
  case (1 lt xs first len val)
  show ?case
  proof (cases "len = 0")
    case True
    then show ?thesis by simp
  next
    case False
    show ?thesis
    proof (cases "lt val (xs ! (first + len div 2))")
      case True
      have "len div 2 \<le> len" by simp
      with True False 1(1) show ?thesis
        by (simp add: upper_bound.simps [of lt xs first len val]) linarith
    next
      case g: False
      with False 1(2) show ?thesis
        by (simp add: upper_bound.simps [of lt xs first len val])
    qed
  qed
qed

lemma upper_bound_left:
  "partitioned lt xs val \<Longrightarrow> first + len \<le> length xs \<Longrightarrow> first \<le> j \<Longrightarrow>
   j < upper_bound lt xs first len val \<Longrightarrow> \<not> lt val (xs ! j)"
proof (induction lt xs first len val rule: upper_bound.induct)
  case (1 lt xs first len val)
  note part = "1.prems"(1)
  show ?case
  proof (cases "len = 0")
    case True
    with "1.prems"(3,4) show ?thesis by simp
  next
    case False
    show ?thesis
    proof (cases "lt val (xs ! (first + len div 2))")
      case True
      with False "1.IH"(1) [OF False True part] "1.prems" show ?thesis
        by (simp add: upper_bound.simps [of lt xs first len val])
    next
      case g: False
      show ?thesis
      proof (cases "j \<le> first + len div 2")
        case True
        have "first + len div 2 < length xs" using False "1.prems"(2) by (simp add: less_le_trans)
        with True part g show ?thesis unfolding partitioned_def by blast
      next
        case f: False
        with False g "1.IH"(2) [OF False g part] "1.prems"(2,4) show ?thesis
          by (simp add: upper_bound.simps [of lt xs first len val])
      qed
    qed
  qed
qed

lemma upper_bound_right:
  "partitioned lt xs val \<Longrightarrow> first + len \<le> length xs \<Longrightarrow>
   upper_bound lt xs first len val \<le> j \<Longrightarrow> j < first + len \<Longrightarrow> lt val (xs ! j)"
proof (induction lt xs first len val rule: upper_bound.induct)
  case (1 lt xs first len val)
  note part = "1.prems"(1)
  show ?case
  proof (cases "len = 0")
    case True
    with "1.prems"(3,4) show ?thesis by simp
  next
    case False
    show ?thesis
    proof (cases "lt val (xs ! (first + len div 2))")
      case True
      show ?thesis
      proof (cases "j < first + len div 2")
        case jl: True
        with False True "1.IH"(1) [OF False True part] "1.prems"(2,3) show ?thesis
          by (simp add: upper_bound.simps [of lt xs first len val])
      next
        case jg: False
        have "j < length xs" using "1.prems"(2,4) by simp
        with jg part True show ?thesis unfolding partitioned_def
          by (meson not_less)
      qed
    next
      case g: False
      with False "1.IH"(2) [OF False g part] "1.prems"(2,3,4) show ?thesis
        by (simp add: upper_bound.simps [of lt xs first len val])
    qed
  qed
qed

lemma upper_bound_whole:
  assumes "partitioned lt xs v"
  shows "upper_bound lt xs 0 (length xs) v \<le> length xs"
    and "j < upper_bound lt xs 0 (length xs) v \<Longrightarrow> \<not> lt v (xs ! j)"
    and "upper_bound lt xs 0 (length xs) v \<le> j \<Longrightarrow> j < length xs \<Longrightarrow> lt v (xs ! j)"
proof -
  show "upper_bound lt xs 0 (length xs) v \<le> length xs"
    using upper_bound_bounds [of 0 lt xs "length xs" v] by simp
  show "j < upper_bound lt xs 0 (length xs) v \<Longrightarrow> \<not> lt v (xs ! j)"
    using upper_bound_left [OF assms, of 0 "length xs" j] by simp
  show "upper_bound lt xs 0 (length xs) v \<le> j \<Longrightarrow> j < length xs \<Longrightarrow> lt v (xs ! j)"
    using upper_bound_right [OF assms, of 0 "length xs" j] by simp
qed

lemma partitioned_sorted:
  fixes xs :: "int list"
  shows "sorted xs \<Longrightarrow> partitioned (<) xs v"
  unfolding partitioned_def
proof (intro allI impI)
  fix i j assume s: "sorted xs" and a: "i \<le> j \<and> j < length xs \<and> v < xs ! i"
  then have "xs ! i \<le> xs ! j" by (simp add: sorted_nth_mono)
  with a show "v < xs ! j" by simp
qed

lemma partitioned_ascending: "ascending a \<Longrightarrow> partitioned fp_lt a x"
  unfolding partitioned_def
proof (intro allI impI)
  fix i j assume s: "ascending a" and a: "i \<le> j \<and> j < length a \<and> fp_lt x (a ! i)"
  have "fp_le (a ! i) (a ! j)"
  proof (cases "i = j")
    case True
    from s a have "a ! i \<noteq> NaN" by (auto simp: ascending_def)
    with True show ?thesis by (cases "a ! i") auto
  next
    case False
    with a have "i < j" by simp
    with s a show ?thesis by (simp add: ascending_def sorted_wrt_nth_less)
  qed
  with a show "fp_lt x (a ! j)" by (blast intro: fp_lt_le_trans)
qed

subsection \<open>The offset loops and the regular distribution\<close>

lemma offsets_shift_ok:
  "r < int (length off) \<Longrightarrow> r \<le> int (length nl) \<Longrightarrow>
   \<exists>off'. offsets_shift nl r off = (PETSC_SUCCESS, off') \<and> length off' = length off \<and>
     (\<forall>k<length off. off' ! k = (if 0 < k \<and> int k \<le> r then nl ! (k - 1) else off ! k))"
proof (induction nl r off rule: offsets_shift.induct)
  case (1 nl r off)
  show ?case
  proof (cases "r > 0")
    case False
    then show ?thesis by (simp add: offsets_shift.simps [of nl r off])
  next
    case True
    with 1(2,3) have ok: "idx_ok off r \<and> idx_ok nl (r - 1)" by (simp add: idx_ok_def)
    let ?off1 = "off[nat r := nth_int nl (r - 1)]"
    from 1(1)[OF True ok] 1(2,3) True
    obtain off' where o: "offsets_shift nl (r - 1) ?off1 = (PETSC_SUCCESS, off')"
      "length off' = length off"
      "\<forall>k<length off. off' ! k = (if 0 < k \<and> int k \<le> r - 1 then nl ! (k - 1) else ?off1 ! k)"
      by auto
    have "\<forall>k<length off. off' ! k = (if 0 < k \<and> int k \<le> r then nl ! (k - 1) else off ! k)"
    proof (intro allI impI)
      fix k assume k: "k < length off"
      show "off' ! k = (if 0 < k \<and> int k \<le> r then nl ! (k - 1) else off ! k)"
      proof (cases "int k = r")
        case True
        then have kr: "k = nat r" by simp
        with o(3) k True \<open>r > 0\<close> show ?thesis
          by (simp add: nth_int_def nat_diff_distrib)
      next
        case False
        then have "k \<noteq> nat r" using \<open>r > 0\<close> by auto
        with o(3) k False show ?thesis by auto
      qed
    qed
    with o(1,2) True ok show ?thesis by (simp add: offsets_shift.simps [of nl r off])
  qed
qed


lemma offsets_accum_ok:
  "1 \<le> r \<Longrightarrow> P \<le> int (length off) \<Longrightarrow>
   \<forall>k<length off. r \<le> int k \<and> int k < P \<longrightarrow>
      is_PetscInt (off ! (nat r - 1) + sum ((!) off) {nat r..k}) \<Longrightarrow>
   \<exists>off'. offsets_accum P r off = (PETSC_SUCCESS, off') \<and> length off' = length off \<and>
     (\<forall>k<length off. off' ! k =
        (if int k < r \<or> P \<le> int k then off ! k
         else off ! (nat r - 1) + sum ((!) off) {nat r..k}))"
proof (induction P r off rule: offsets_accum.induct)
  case (1 P r off)
  note r1 = "1.prems"(1) and PL = "1.prems"(2) and rng = "1.prems"(3)
  show ?case
  proof (cases "r < P")
    case False
    then show ?thesis by (auto simp add: offsets_accum.simps [of P r off])
  next
    case True
    define n where "n = nat r"
    have n: "r = int n" "nat (r + 1) = Suc n" "nat (r - 1) = n - 1" "n < length off" "0 < n"
      using r1 PL True by (auto simp: n_def)
    have ok: "idx_ok off r \<and> idx_ok off (r - 1)"
      using True r1 PL by (simp add: idx_ok_def)
    have "is_PetscInt (off ! (nat r - 1) + sum ((!) off) {nat r..n})"
      using rng [rule_format, of n] n True by simp
    then have "is_PetscInt (off ! (n - 1) + off ! n)"
      by (simp add: n_def [symmetric])
    then have ex: "addI (off ! n) (off ! (n - 1)) = off ! n + off ! (n - 1)"
      by (simp add: addI_id add.commute)
    define off1 where "off1 = off[nat r := addI (nth_int off r) (nth_int off (r - 1))]"
    have off1: "off1 = off[n := off ! n + off ! (n - 1)]"
      using n ex by (simp add: off1_def nth_int_def del: of_nat_diff)
    have len1: "length off1 = length off" by (simp add: off1)
    have pre: "1 \<le> r + 1" "P \<le> int (length off1)" using r1 PL len1 by auto
    have rng1: "\<forall>k<length off1. r + 1 \<le> int k \<and> int k < P \<longrightarrow>
      is_PetscInt (off1 ! (nat (r + 1) - 1) + sum ((!) off1) {nat (r + 1)..k})"
    proof (intro allI impI)
      fix k assume k: "k < length off1" and a: "r + 1 \<le> int k \<and> int k < P"
      then have nk: "n < k" using n(1) by linarith
      have "off1 ! n = off ! n + off ! (n - 1)" using n(4) by (simp add: off1)
      moreover have "sum ((!) off1) {Suc n..k} = sum ((!) off) {Suc n..k}"
        by (rule sum.cong) (auto simp: off1)
      moreover have "off ! n + sum ((!) off) {Suc n..k} = sum ((!) off) {n..k}"
        using nk by (simp add: sum.atLeast_Suc_atMost)
      ultimately have "off1 ! n + sum ((!) off1) {Suc n..k} = off ! (n - 1) + sum ((!) off) {n..k}"
        by simp
      moreover have "is_PetscInt (off ! (n - 1) + sum ((!) off) {n..k})"
        using rng k a len1 n(1) by (simp add: n_def [symmetric])
      ultimately show "is_PetscInt (off1 ! (nat (r + 1) - 1) + sum ((!) off1) {nat (r + 1)..k})"
        using n(2) by simp
    qed
    from "1.IH" [OF True ok, folded off1_def, OF pre rng1] len1 n(2)
    obtain off' where o: "offsets_accum P (r + 1) off1 = (PETSC_SUCCESS, off')"
      "length off' = length off"
      "\<forall>k<length off. off' ! k =
        (if int k < r + 1 \<or> P \<le> int k then off1 ! k
         else off1 ! (Suc n - 1) + sum ((!) off1) {Suc n..k})"
      by auto
    have "\<forall>k<length off. off' ! k =
        (if int k < r \<or> P \<le> int k then off ! k
         else off ! (nat r - 1) + sum ((!) off) {nat r..k})"
    proof (intro allI impI)
      fix k assume k: "k < length off"
      show "off' ! k =
        (if int k < r \<or> P \<le> int k then off ! k
         else off ! (nat r - 1) + sum ((!) off) {nat r..k})"
      proof (cases "int k < r \<or> P \<le> int k")
        case kk: True
        then have "k \<noteq> n" using True n(1) by linarith
        with o(3) k kk show ?thesis by (auto simp: off1)
      next
        case kk: False
        then have rk: "n \<le> k" using n(1) by linarith
        show ?thesis
        proof (cases "k = n")
          case e: True
          have "off' ! k = off1 ! k" using o(3) k e n(1) by simp
          also have "\<dots> = off ! n + off ! (n - 1)" using e n(4) by (simp add: off1)
          finally show ?thesis using kk e by (simp add: n_def [symmetric])
        next
          case ne: False
          with rk have lt: "n < k" by simp
          have "off' ! k = off1 ! n + sum ((!) off1) {Suc n..k}"
            using o(3) k kk lt n(1) by auto
          also have "off1 ! n = off ! n + off ! (n - 1)" using n(4) by (simp add: off1)
          also have "sum ((!) off1) {Suc n..k} = sum ((!) off) {Suc n..k}"
            by (rule sum.cong) (auto simp: off1)
          finally have "off' ! k = off ! (n - 1) + (off ! n + sum ((!) off) {Suc n..k})"
            by simp
          also have "off ! n + sum ((!) off) {Suc n..k} = sum ((!) off) {n..k}"
            using rk by (simp add: sum.atLeast_Suc_atMost)
          finally show ?thesis using kk by (simp add: n_def [symmetric])
        qed
      qed
    qed
    with o(1,2) True ok show ?thesis
      by (simp add: offsets_accum.simps [of P r off] off1_def)
  qed
qed

lemma offsets_accum_succeeds:
  "1 \<le> r \<Longrightarrow> P \<le> int (length off) \<Longrightarrow> fst (offsets_accum P r off) = PETSC_SUCCESS"
proof (induction P r off rule: offsets_accum.induct)
  case (1 P r off)
  show ?case
  proof (cases "r < P")
    case False
    then show ?thesis by (simp add: offsets_accum.simps [of P r off])
  next
    case True
    have ok: "idx_ok off r \<and> idx_ok off (r - 1)"
      using True "1.prems" by (simp add: idx_ok_def)
    have "fst (offsets_accum P (r + 1)
        (off[nat r := addI (nth_int off r) (nth_int off (r - 1))])) = PETSC_SUCCESS"
      using "1.prems" by (intro "1.IH" [OF True ok]) simp_all
    with True ok show ?thesis by (simp add: offsets_accum.simps [of P r off])
  qed
qed

lemma createDMDA_succeeds:
  assumes P: "0 < P" "mpiSize b = int P" "length (nLclAllProcs b) = P"
    "length (offsetsAllProcs b) = P" "length gathered = P"
  shows "fst (createDMDA PETSC_SUCCESS PETSC_SUCCESS gathered b) = PETSC_SUCCESS"
proof -
  define nl where "nl = map (\<lambda>it. mulI it (dim b)) gathered"
  have "int P - 1 < int (length (offsetsAllProcs b))" "int P - 1 \<le> int (length nl)"
    using P by (simp_all add: nl_def)
  from offsets_shift_ok [OF this]
  obtain off1 where s1: "offsets_shift nl (int P - 1) (offsetsAllProcs b) = (PETSC_SUCCESS, off1)"
    "length off1 = P"
    using P by auto
  have "fst (offsets_accum (int P) 1 off1) = PETSC_SUCCESS"
    using s1(2) by (intro offsets_accum_succeeds) simp_all
  then obtain off2 where "offsets_accum (int P) 1 off1 = (PETSC_SUCCESS, off2)"
    by (cases "offsets_accum (int P) 1 off1") simp
  then show ?thesis
    using P s1(1) by (simp add: createDMDA_def Let_def nl_def)
qed

lemma createDMDA_tables:
  assumes P: "0 < P" "mpiSize b = int P" "length (nLclAllProcs b) = P"
    "length (offsetsAllProcs b) = P" "length gathered = P"
    and a: "a = DMDA_local_info (nPts b) (mpiSize b) (mpiRank b)"
    and rng0: "is_PetscInt (info_xs a + info_xm a)"
    and rng1: "\<forall>k<P. is_PetscInt (gathered ! k * dim b)"
    and rng2: "\<forall>k<P. is_PetscInt (offsetsAllProcs b ! 0 + (\<Sum>j<k. gathered ! j * dim b))"
  shows "\<exists>off. createDMDA PETSC_SUCCESS PETSC_SUCCESS gathered b =
           (PETSC_SUCCESS,
            b\<lparr> bgPt := info_xs a, nLclPts := info_xm a, edPt := info_xs a + info_xm a,
               nLclAllProcs := map (\<lambda>it. it * dim b) gathered, offsetsAllProcs := off \<rparr>) \<and>
         length off = P \<and>
         (\<forall>k<P. off ! k = offsetsAllProcs b ! 0 + (\<Sum>j<k. gathered ! j * dim b))"
proof -
  define nl where "nl = map (\<lambda>it. it * dim b) gathered"
  define off0 where "off0 = offsetsAllProcs b"
  have nlw: "map (\<lambda>it. mulI it (dim b)) gathered = nl"
    unfolding nl_def using rng1 P(5) by (intro nth_equalityI) (simp_all add: mulI_id)
  have "int P - 1 < int (length off0)" "int P - 1 \<le> int (length nl)"
    using P by (simp_all add: off0_def nl_def)
  from offsets_shift_ok [OF this]
  obtain off1 where s1: "offsets_shift nl (int P - 1) off0 = (PETSC_SUCCESS, off1)"
    "length off1 = P"
    "\<forall>k<P. off1 ! k = (if 0 < k \<and> int k \<le> int P - 1 then nl ! (k - 1) else off0 ! k)"
    using P by (auto simp: off0_def)
  have pref: "off1 ! 0 + sum ((!) off1) {1..k} = off0 ! 0 + (\<Sum>j<k. gathered ! j * dim b)"
    if k: "k < P" for k
  proof (cases k)
    case 0
    then show ?thesis using s1(3) P(1) by simp
  next
    case (Suc k')
    have "off1 ! 0 = off0 ! 0" using s1(3) P(1) by simp
    moreover have "sum ((!) off1) {1..k} = sum (\<lambda>j. nl ! (j - 1)) {1..k}"
      using s1(3) k by (intro sum.cong) auto
    moreover have "sum (\<lambda>j. nl ! (j - 1)) {1..k} = sum (\<lambda>j. nl ! j) {0..k'}"
      using Suc sum.shift_bounds_cl_Suc_ivl [of "\<lambda>j. nl ! (j - 1)" 0 k'] by simp
    moreover have "sum (\<lambda>j. nl ! j) {0..k'} = (\<Sum>j<k. gathered ! j * dim b)"
      using Suc k P(5) by (intro sum.cong) (auto simp: nl_def)
    ultimately show ?thesis by simp
  qed
  have rng: "\<forall>k<length off1. 1 \<le> int k \<and> int k < int P \<longrightarrow>
      is_PetscInt (off1 ! (nat 1 - 1) + sum ((!) off1) {nat 1..k})"
    using pref rng2 s1(2) by (simp add: off0_def)
  have "(1::int) \<le> 1" "int P \<le> int (length off1)" using s1(2) by simp_all
  from offsets_accum_ok [OF this rng]
  obtain off2 where s2: "offsets_accum (int P) 1 off1 = (PETSC_SUCCESS, off2)"
    "length off2 = P"
    "\<forall>k<P. off2 ! k = (if int k < 1 \<or> int P \<le> int k then off1 ! k
         else off1 ! (nat 1 - 1) + sum ((!) off1) {nat 1..k})"
    using s1(2) by auto
  have vals: "\<forall>k<P. off2 ! k = offsetsAllProcs b ! 0 + (\<Sum>j<k. gathered ! j * dim b)"
  proof (intro allI impI)
    fix k assume k: "k < P"
    show "off2 ! k = offsetsAllProcs b ! 0 + (\<Sum>j<k. gathered ! j * dim b)"
    proof (cases k)
      case 0
      with s2(3) s1(3) k show ?thesis by (simp add: off0_def)
    next
      case (Suc k')
      have "off2 ! k = off1 ! 0 + sum ((!) off1) {1..k}" using s2(3) k Suc by simp
      with pref [OF k] show ?thesis by (simp add: off0_def)
    qed
  qed
  have "createDMDA PETSC_SUCCESS PETSC_SUCCESS gathered b =
           (PETSC_SUCCESS,
            b\<lparr> bgPt := info_xs a, nLclPts := info_xm a, edPt := info_xs a + info_xm a,
               nLclAllProcs := map (\<lambda>it. it * dim b) gathered, offsetsAllProcs := off2 \<rparr>)"
  proof -
    note nlw' = nlw [unfolded nl_def]
    have s1': "offsets_shift (map (\<lambda>it. mulI it (dim b)) gathered) (int P - 1) (offsetsAllProcs b)
        = (PETSC_SUCCESS, off1)"
      using s1(1) by (simp only: nlw' nl_def off0_def)
    have ed: "addI (info_xs (DMDA_local_info (nPts b) (mpiSize b) (mpiRank b)))
        (info_xm (DMDA_local_info (nPts b) (mpiSize b) (mpiRank b))) = info_xs a + info_xm a"
      using addI_id [OF rng0] by (simp only: a)
    note ed' = ed [unfolded P(2)] and a' = a [unfolded P(2), symmetric]
    show ?thesis
      unfolding createDMDA_def Let_def
      by (simp add: P s1' s1(1) [unfolded nl_def off0_def] s2(1) ed' nlw' a' addI_id [OF rng0])
  qed
  with s2(2) vals show ?thesis by blast
qed

lemma block_exists:
  fixes S :: "nat \<Rightarrow> int"
  shows "S 0 \<le> i \<Longrightarrow> i < S P \<Longrightarrow> \<exists>r<P. S r \<le> i \<and> i < S (Suc r)"
proof (induction P)
  case 0
  then show ?case by simp
next
  case (Suc P)
  show ?case
  proof (cases "i < S P")
    case True
    with Suc obtain r where "r < P" "S r \<le> i \<and> i < S (Suc r)" by blast
    then show ?thesis using less_Suc_eq by blast
  next
    case False
    with Suc.prems show ?thesis by (intro exI [of _ P]) simp
  qed
qed

lemma block_mono:
  fixes S :: "nat \<Rightarrow> int"
  assumes "\<forall>j<P. S j \<le> S (Suc j)"
  shows "r \<le> q \<Longrightarrow> q \<le> P \<Longrightarrow> S r \<le> S q"
proof (induction q)
  case 0
  then show ?case by simp
next
  case (Suc q)
  show ?case
  proof (cases "r = Suc q")
    case True
    then show ?thesis by simp
  next
    case False
    with Suc have "S r \<le> S q" by simp
    moreover have "S q \<le> S (Suc q)" using assms Suc.prems by simp
    ultimately show ?thesis by simp
  qed
qed

lemma block_unique:
  fixes S :: "nat \<Rightarrow> int"
  assumes mono: "\<forall>j<P. S j \<le> S (Suc j)"
    and r: "r < P" "S r \<le> i" "i < S (Suc r)"
    and q: "q < P" "S q \<le> i" "i < S (Suc q)"
  shows "r = q"
proof (rule ccontr)
  assume "r \<noteq> q"
  then consider "Suc r \<le> q" | "Suc q \<le> r" by linarith
  then show False
  proof cases
    case 1
    from block_mono [OF mono 1] q(1) have "S (Suc r) \<le> S q" by simp
    with r(3) q(2) show False by simp
  next
    case 2
    from block_mono [OF mono 2] r(1) have "S (Suc q) \<le> S r" by simp
    with q(3) r(2) show False by simp
  qed
qed

lemma sum_list_take_nth:
  fixes xs :: "int list"
  shows "k \<le> length xs \<Longrightarrow> sum_list (take k xs) = (\<Sum>j<k. xs ! j)"
proof (induction k)
  case 0
  then show ?case by simp
next
  case (Suc k)
  then show ?case by (simp add: take_Suc_conv_app_nth)
qed



lemma regular_prefix:
  assumes M: "0 \<le> M" and P: "0 < P"
  shows "r \<le> P \<Longrightarrow>
    (\<Sum>j<r. info_xm (DMDA_local_info M (int P) (int j))) =
      int r * (M div int P) + min (int r) (M mod int P)"
proof (induction r)
  case 0
  then show ?case using M P by simp
next
  case (Suc r)
  then show ?case by (simp add: DMDA_local_info_def algebra_simps min_def)
qed

lemma info_xm_nonneg:
  "0 \<le> M \<Longrightarrow> 0 < P \<Longrightarrow> 0 \<le> info_xm (DMDA_local_info M (int P) (int j))"
  by (simp add: DMDA_local_info_def pos_imp_zdiv_nonneg_iff)

lemma info_xs_prefix:
  assumes "0 \<le> M" "0 < P" "r < P"
  shows "info_xs (DMDA_local_info M (int P) (int r)) =
    (\<Sum>j<r. info_xm (DMDA_local_info M (int P) (int j)))"
  using regular_prefix [OF assms(1,2), of r] assms(3)
  by (simp add: DMDA_local_info_def min_def)

lemma regular_total:
  assumes "0 \<le> M" "0 < P"
  shows "(\<Sum>j<P. info_xm (DMDA_local_info M (int P) (int j))) = M"
proof -
  have "M mod int P < int P" using assms by simp
  then have "min (int P) (M mod int P) = M mod int P" by linarith
  with regular_prefix [OF assms, of P] show ?thesis by simp
qed

lemma regular_prefix_bounds:
  assumes "0 \<le> M" "0 < P" "k \<le> P"
  shows "0 \<le> (\<Sum>j<k. info_xm (DMDA_local_info M (int P) (int j)))"
    and "(\<Sum>j<k. info_xm (DMDA_local_info M (int P) (int j))) \<le> M"
proof -
  let ?f = "\<lambda>j. info_xm (DMDA_local_info M (int P) (int j))"
  show "0 \<le> sum ?f {..<k}" using assms by (intro sum_nonneg info_xm_nonneg)
  have "sum ?f {..<k} \<le> sum ?f {..<P}"
    using assms by (intro sum_mono2) (auto intro: info_xm_nonneg)
  then show "sum ?f {..<k} \<le> M" using regular_total [OF assms(1,2)] by simp
qed

lemma regular_prefix_mono:
  assumes "0 \<le> M" "0 < P" "k \<le> l"
  shows "(\<Sum>j<k. info_xm (DMDA_local_info M (int P) (int j)))
      \<le> (\<Sum>j<l. info_xm (DMDA_local_info M (int P) (int j)))"
  using assms by (intro sum_mono2) (auto intro: info_xm_nonneg)

lemma createDMDA_ranks_nth:
  assumes on: "on_ranks N D bs"
    and N: "0 \<le> N" "N < 2 ^ 31" and D: "0 \<le> D"
    and c0: "is_PetscInt (offsetsAllProcs (bs ! r) ! 0)"
      "is_PetscInt (offsetsAllProcs (bs ! r) ! 0 + N * D)"
    and ND: "N * D < 2 ^ 31"
    and r: "r < length bs"
  shows "fst (createDMDA_ranks bs ! r) = PETSC_SUCCESS"
    and "bgPt (rank_bodies bs ! r) =
      (\<Sum>j<r. info_xm (DMDA_local_info N (int (length bs)) (int j)))"
    and "nLclPts (rank_bodies bs ! r) = info_xm (DMDA_local_info N (int (length bs)) (int r))"
    and "edPt (rank_bodies bs ! r) =
      (\<Sum>j<Suc r. info_xm (DMDA_local_info N (int (length bs)) (int j)))"
    and "length (offsetsAllProcs (rank_bodies bs ! r)) = length bs"
    and "\<forall>k<length bs. offsetsAllProcs (rank_bodies bs ! r) ! k
            = offsetsAllProcs (bs ! r) ! 0 +
              D * (\<Sum>j<k. info_xm (DMDA_local_info N (int (length bs)) (int j)))"
    and "nLclAllProcs (rank_bodies bs ! r) =
      map (\<lambda>j. info_xm (DMDA_local_info N (int (length bs)) (int j)) * D) [0..<length bs]"
proof -
  let ?P = "length bs"
  let ?xm = "\<lambda>j. info_xm (DMDA_local_info N (int ?P) (int j))"
  let ?S = "\<lambda>k. \<Sum>j<k. ?xm j"
  let ?c0 = "offsetsAllProcs (bs ! r) ! 0"
  define g where "g = map (\<lambda>b. info_xm (DMDA_local_info (nPts b) (mpiSize b) (mpiRank b))) bs"
  have P: "0 < ?P" using r by linarith
  have each: "mpiSize (bs ! k) = int ?P \<and> mpiRank (bs ! k) = int k \<and> nPts (bs ! k) = N \<and>
      dim (bs ! k) = D \<and> length (nLclAllProcs (bs ! k)) = ?P \<and>
      length (offsetsAllProcs (bs ! k)) = ?P" if "k < ?P" for k
    using on that by (simp add: on_ranks_def list_all_length)
  have g: "g = map ?xm [0..<?P]"
    unfolding g_def by (rule nth_equalityI) (simp_all add: each)
  have gn: "g ! k = ?xm k" if "k < ?P" for k using that by (simp add: g)
  have lg: "length g = ?P" by (simp add: g)
  note e = each [OF r]
  define a where "a = DMDA_local_info (nPts (bs ! r)) (mpiSize (bs ! r)) (mpiRank (bs ! r))"
  have a: "a = DMDA_local_info N (int ?P) (int r)" by (simp add: a_def e)
  have xs: "info_xs a = ?S r" using info_xs_prefix [OF N(1) P r] by (simp only: a)
  have xm: "info_xm a = ?xm r" by (simp only: a)
  have ed: "info_xs a + info_xm a = ?S (Suc r)" by (simp add: xs xm)
  have "0 \<le> ?S (Suc r)" "?S (Suc r) \<le> N"
    using regular_prefix_bounds [OF N(1) P, of "Suc r"] r by simp_all
  then have rng0: "is_PetscInt (info_xs a + info_xm a)"
    unfolding ed using N by (simp add: is_PetscInt_def)
  have bnd: "0 \<le> D * ?S k \<and> D * ?S k \<le> N * D" if "k \<le> ?P" for k
  proof -
    have "0 \<le> ?S k" "?S k \<le> N" using regular_prefix_bounds [OF N(1) P that] by simp_all
    then show ?thesis using D by (simp add: mult_left_mono mult.commute)
  qed
  have one: "0 \<le> ?xm k * D \<and> ?xm k * D \<le> N * D" if "k < ?P" for k
  proof -
    have "0 \<le> ?xm k" using info_xm_nonneg [OF N(1) P] .
    moreover have "?xm k \<le> ?S (Suc k)"
      using regular_prefix_bounds(1) [OF N(1) P, of k] that by simp
    moreover have "?S (Suc k) \<le> N"
      using regular_prefix_bounds(2) [OF N(1) P, of "Suc k"] that by simp
    ultimately show ?thesis using D by (simp add: mult_right_mono)
  qed
  have rng1: "\<forall>k<?P. is_PetscInt (g ! k * dim (bs ! r))"
  proof (intro allI impI)
    fix k assume k: "k < ?P"
    from one [OF k] ND have "is_PetscInt (?xm k * D)" by (simp add: is_PetscInt_def)
    then show "is_PetscInt (g ! k * dim (bs ! r))" using k by (simp add: gn e)
  qed
  have sums: "(\<Sum>j<k. g ! j * dim (bs ! r)) = D * ?S k" if "k \<le> ?P" for k
  proof -
    have "(\<Sum>j<k. g ! j * dim (bs ! r)) = (\<Sum>j<k. ?xm j * D)"
      using that by (intro sum.cong) (auto simp: gn e)
    also have "\<dots> = D * ?S k" by (simp add: sum_distrib_left mult.commute)
    finally show ?thesis .
  qed
  have rng2: "\<forall>k<?P. is_PetscInt (?c0 + (\<Sum>j<k. g ! j * dim (bs ! r)))"
  proof (intro allI impI)
    fix k assume k: "k < ?P"
    then have "0 \<le> D * ?S k \<and> D * ?S k \<le> N * D" by (intro bnd) simp
    with c0 show "is_PetscInt (?c0 + (\<Sum>j<k. g ! j * dim (bs ! r)))"
      using k by (simp add: sums is_PetscInt_def)
  qed
  have pre: "mpiSize (bs ! r) = int ?P" "length (nLclAllProcs (bs ! r)) = ?P"
    "length (offsetsAllProcs (bs ! r)) = ?P"
    using e by simp_all
  from createDMDA_tables [OF P pre lg a_def rng0 rng1 rng2]
  obtain off where c: "createDMDA PETSC_SUCCESS PETSC_SUCCESS g (bs ! r) =
           (PETSC_SUCCESS,
            (bs ! r)\<lparr> bgPt := info_xs a, nLclPts := info_xm a, edPt := info_xs a + info_xm a,
               nLclAllProcs := map (\<lambda>it. it * dim (bs ! r)) g, offsetsAllProcs := off \<rparr>)"
    and lo: "length off = ?P"
    and vo: "\<forall>k<?P. off ! k = ?c0 + (\<Sum>j<k. g ! j * dim (bs ! r))"
    by blast
  have nth: "createDMDA_ranks bs ! r = createDMDA PETSC_SUCCESS PETSC_SUCCESS g (bs ! r)"
    using r by (simp add: createDMDA_ranks_def g_def)
  have rb: "rank_bodies bs ! r =
      (bs ! r)\<lparr> bgPt := info_xs a, nLclPts := info_xm a, edPt := info_xs a + info_xm a,
               nLclAllProcs := map (\<lambda>it. it * dim (bs ! r)) g, offsetsAllProcs := off \<rparr>"
    using r by (simp add: rank_bodies_def createDMDA_ranks_def g_def [symmetric] c)
  show "fst (createDMDA_ranks bs ! r) = PETSC_SUCCESS" by (simp add: nth c)
  show "bgPt (rank_bodies bs ! r) = ?S r" by (simp add: rb xs)
  show "nLclPts (rank_bodies bs ! r) = ?xm r" by (simp add: rb xm)
  show "edPt (rank_bodies bs ! r) = ?S (Suc r)" using ed by (simp add: rb)
  show "length (offsetsAllProcs (rank_bodies bs ! r)) = ?P" by (simp add: rb lo)
  show "\<forall>k<?P. offsetsAllProcs (rank_bodies bs ! r) ! k = ?c0 + D * ?S k"
    using vo sums by (simp add: rb)
  show "nLclAllProcs (rank_bodies bs ! r) = map (\<lambda>j. ?xm j * D) [0..<?P]"
    by (simp add: rb g e)
qed

lemma createDMDA_frame:
  "dim (snd (createDMDA e m g b)) = dim b \<and> nPts (snd (createDMDA e m g b)) = nPts b \<and>
   coords (snd (createDMDA e m g b)) = coords b \<and> mpiSize (snd (createDMDA e m g b)) = mpiSize b \<and>
   mpiRank (snd (createDMDA e m g b)) = mpiRank b"
  by (simp add: createDMDA_def Let_def split: prod.splits)

lemma createDMDA_ranks_frame:
  assumes r: "r < length bs"
  shows "dim (rank_bodies bs ! r) = dim (bs ! r)"
    and "nPts (rank_bodies bs ! r) = nPts (bs ! r)"
    and "coords (rank_bodies bs ! r) = coords (bs ! r)"
  using r createDMDA_frame by (simp_all add: rank_bodies_def createDMDA_ranks_def)

lemma global_index_inj:
  fixes i :: int
  assumes "0 \<le> d" "d < D" "0 \<le> d'" "d' < D" "i * D + d = i' * D + d'"
  shows "i = i' \<and> d = d'"
proof -
  have D: "D \<noteq> 0" using assms by auto
  have z: "d div D = 0" "d' div D = 0" using assms by simp_all
  have e: "d + i * D = d' + i' * D" using assms(5) by (simp add: add.commute)
  have "i = i + d div D" using z by simp
  also have "\<dots> = (d + i * D) div D" using D by (rule div_mult_self1 [symmetric])
  also have "\<dots> = (d' + i' * D) div D" using e by simp
  also have "\<dots> = i' + d' div D" using D by (rule div_mult_self1)
  also have "\<dots> = i'" using z by simp
  finally have "i = i'" .
  with assms(5) show ?thesis by simp
qed

subsection \<open>Global indices in range\<close>

lemma dof_index_range:
  fixes i :: int
  assumes "0 \<le> i" "i < n" "0 \<le> d" "d < D"
  shows "0 \<le> i * D" and "i * D \<le> i * D + d" and "i * D + d < n * D"
proof -
  have D: "0 < D" using assms by simp
  show "0 \<le> i * D" using assms D by simp
  show "i * D \<le> i * D + d" using assms by simp
  have "i * D + d < i * D + D" using assms by simp
  also have "\<dots> = (i + 1) * D" by (simp add: algebra_simps)
  also have "\<dots> \<le> n * D" using assms D by (intro mult_right_mono) simp_all
  finally show "i * D + d < n * D" .
qed

lemma getGlobalIndex_exact:
  assumes "0 \<le> i" "i < nPts b" "0 \<le> dof" "dof < dim b" "nPts b * dim b < 2 ^ 31"
  shows "getGlobalIndex b i dof idx = (PETSC_SUCCESS, i * dim b + dof)"
proof -
  note rg = dof_index_range [OF assms(1-4)]
  have "is_PetscInt (i * dim b)" using rg assms(5) by (simp add: is_PetscInt_def)
  moreover have "is_PetscInt (i * dim b + dof)" using rg assms(5) by (simp add: is_PetscInt_def)
  ultimately show ?thesis using assms(1-4) by (simp add: getGlobalIndex_def mulI_id addI_id)
qed

subsection \<open>The loops of \<^verbatim>\<open>updateMeshIdx\<close>\<close>

lemma idx_ok_upd [simp]: "idx_ok (xs[k := v]) j = idx_ok xs j"
  by (simp add: idx_ok_def)

lemma nth_int_upd:
  "idx_ok xs k \<Longrightarrow> 0 \<le> j \<Longrightarrow> nth_int (xs[nat k := v]) j = (if j = k then v else nth_int xs j)"
  by (auto simp: idx_ok_def nth_int_def nth_list_update)

lemma mesh_fits_access:
  assumes "mesh_fits mesh b" "0 \<le> d" "d < dim b"
  shows "idx_ok (mesh_min mesh) d" "idx_ok (mesh_max mesh) d"
    "idx_ok (mesh_coord mesh) 4" "idx_ok (nth_int (mesh_coord mesh) 4) d"
    "idx_ok (mesh_n mesh) 4" "idx_ok (nth_int (mesh_n mesh) 4) d"
    "0 \<le> nth2 (mesh_n mesh) 4 d"
    "nth2 (mesh_n mesh) 4 d = int (length (nth2 (mesh_coord mesh) 4 d))"
proof -
  have d: "nat d < nat (dim b)" using assms(2,3) by simp
  from assms(1) have "\<forall>k<nat (dim b). mesh_n mesh ! 4 ! k = int (length (mesh_coord mesh ! 4 ! k))"
    by (simp add: mesh_fits_def list_all_length)
  with d have n: "mesh_n mesh ! 4 ! nat d = int (length (mesh_coord mesh ! 4 ! nat d))" by blast
  show "idx_ok (mesh_min mesh) d" "idx_ok (mesh_max mesh) d"
    "idx_ok (mesh_coord mesh) 4" "idx_ok (nth_int (mesh_coord mesh) 4) d"
    "idx_ok (mesh_n mesh) 4" "idx_ok (nth_int (mesh_n mesh) 4) d"
    using assms by (simp_all add: mesh_fits_def idx_ok_def nth_int_def)
  show "nth2 (mesh_n mesh) 4 d = int (length (nth2 (mesh_coord mesh) 4 d))"
    using n by (simp add: nth2_def nth_int_def)
  then show "0 \<le> nth2 (mesh_n mesh) 4 d" by simp
qed

lemma dims_ok:
  "mesh_fits mesh b \<Longrightarrow> idx_ok (coords b) i \<Longrightarrow>
    dim b \<le> int (length (nth_int (coords b) i)) \<Longrightarrow>
    0 \<le> d \<Longrightarrow> idx_ok mi c \<Longrightarrow> dim b \<le> int (length (nth_int mi c)) \<Longrightarrow>
    \<forall>d'. d \<le> d' \<and> d' < dim b \<longrightarrow> inside mesh b i d' \<Longrightarrow>
    \<exists>mi'. updateMeshIdx_dims mesh b i c d mi = (PETSC_SUCCESS, mi') \<and>
      length mi' = length mi \<and>
      (\<forall>c'. idx_ok mi c' \<longrightarrow> length (nth_int mi' c') = length (nth_int mi c')) \<and>
      (\<forall>c' d'. idx_ok mi c' \<and> 0 \<le> d' \<longrightarrow>
          nth2 mi' c' d' = (if c' = c \<and> d \<le> d' \<and> d' < dim b then cell mesh b i d'
                            else nth2 mi c' d'))"
proof (induction mesh b i c d mi rule: updateMeshIdx_dims.induct)
  case (1 mesh b i c d mi)
  note fit = "1.prems"(1,2,3)
  note d0 = "1.prems"(4) and mc = "1.prems"(5) and ml = "1.prems"(6) and allin = "1.prems"(7)
  show ?case
  proof (cases "d < dim b")
    case False
    then show ?thesis by (auto simp: updateMeshIdx_dims.simps [of mesh b i c d mi])
  next
    case True
    note acc = mesh_fits_access [OF fit(1) d0 True]
    have row: "idx_ok (nth_int (coords b) i) d" using fit(3) True d0 by (simp add: idx_ok_def)
    have mrow: "idx_ok (nth_int mi c) d" using ml True d0 by (simp add: idx_ok_def)
    have ins: "inside mesh b i d" using allin True by simp
    let ?v = "cell mesh b i d"
    let ?mi1 = "mi[nat c := (nth_int mi c)[nat d := ?v]]"
    have step: "updateMeshIdx_dims mesh b i c d mi = updateMeshIdx_dims mesh b i c (d + 1) ?mi1"
      using True acc row mrow ins fit(2) mc
      by (subst updateMeshIdx_dims.simps) (simp add: inside_def cell_def)
    have c1: "idx_ok ?mi1 c" using mc by simp
    have r1: "nth_int ?mi1 c = (nth_int mi c)[nat d := ?v]"
      using nth_int_upd [OF mc, of c] mc by (simp add: idx_ok_def)
    have l1: "dim b \<le> int (length (nth_int ?mi1 c))" using ml by (simp add: r1)
    have ih_pre: "\<forall>d'. d + 1 \<le> d' \<and> d' < dim b \<longrightarrow> inside mesh b i d'" using allin by simp
    have d1: "0 \<le> d + 1" using d0 by simp
    have notA: "\<not> \<not> (idx_ok (mesh_min mesh) d \<and> idx_ok (coords b) i \<and> idx_ok (nth_int (coords b) i) d)"
      using acc row fit(2) by simp
    have notB: "\<not> fp_ge (nth_int (mesh_min mesh) d) (nth2 (coords b) i d)"
      using ins by (simp add: inside_def)
    have notC: "\<not> \<not> idx_ok (mesh_max mesh) d" using acc by simp
    have notD: "\<not> fp_le (nth_int (mesh_max mesh) d) (nth2 (coords b) i d)"
      using ins by (simp add: inside_def)
    have notE: "\<not> \<not> (idx_ok (mesh_coord mesh) 4 \<and> idx_ok (nth_int (mesh_coord mesh) 4) d \<and>
                   idx_ok (mesh_n mesh) 4 \<and> idx_ok (nth_int (mesh_n mesh) 4) d \<and>
                   0 \<le> nth2 (mesh_n mesh) 4 d \<and>
                   nth2 (mesh_n mesh) 4 d \<le> int (length (nth2 (mesh_coord mesh) 4 d)) \<and>
                   idx_ok mi c \<and> idx_ok (nth_int mi c) d)"
      using acc mrow mc by simp
    from "1.IH" [OF True notA notB notC notD notE fit, folded cell_def,
        OF d1 c1 l1 ih_pre]
    obtain mi' where o: "updateMeshIdx_dims mesh b i c (d + 1) ?mi1 = (PETSC_SUCCESS, mi')"
      "length mi' = length ?mi1"
      "\<forall>c'. idx_ok ?mi1 c' \<longrightarrow> length (nth_int mi' c') = length (nth_int ?mi1 c')"
      "\<forall>c' d'. idx_ok ?mi1 c' \<and> 0 \<le> d' \<longrightarrow>
          nth2 mi' c' d' = (if c' = c \<and> d + 1 \<le> d' \<and> d' < dim b then cell mesh b i d'
                            else nth2 ?mi1 c' d')"
      by blast
    have lens: "\<forall>c'. idx_ok mi c' \<longrightarrow> length (nth_int mi' c') = length (nth_int mi c')"
    proof (intro allI impI)
      fix c' assume c': "idx_ok mi c'"
      then have "length (nth_int mi' c') = length (nth_int ?mi1 c')" using o(3) by simp
      also have "\<dots> = length (nth_int mi c')"
        using nth_int_upd [OF mc, of c'] c' by (simp add: idx_ok_def)
      finally show "length (nth_int mi' c') = length (nth_int mi c')" .
    qed
    have vals: "\<forall>c' d'. idx_ok mi c' \<and> 0 \<le> d' \<longrightarrow>
          nth2 mi' c' d' = (if c' = c \<and> d \<le> d' \<and> d' < dim b then cell mesh b i d'
                            else nth2 mi c' d')"
    proof (intro allI impI)
      fix c' d' :: int assume a: "idx_ok mi c' \<and> 0 \<le> d'"
      then have c0: "0 \<le> c'" by (simp add: idx_ok_def)
      have m1: "nth_int ?mi1 c' = (if c' = c then (nth_int mi c)[nat d := ?v] else nth_int mi c')"
        using nth_int_upd [OF mc c0] by simp
      have m2: "nth2 ?mi1 c' d' = (if c' = c \<and> d' = d then ?v else nth2 mi c' d')"
      proof (cases "c' = c")
        case True
        then have "nth2 ?mi1 c' d' = nth_int ((nth_int mi c)[nat d := ?v]) d'"
          using m1 by (simp add: nth2_def)
        also have "\<dots> = (if d' = d then ?v else nth_int (nth_int mi c) d')"
          using a by (intro nth_int_upd [OF mrow]) simp
        finally show ?thesis using True by (simp add: nth2_def)
      next
        case False
        then show ?thesis using m1 by (simp add: nth2_def)
      qed
      have "nth2 mi' c' d' = (if c' = c \<and> d + 1 \<le> d' \<and> d' < dim b then cell mesh b i d'
                            else nth2 ?mi1 c' d')"
        using o(4) a by simp
      with m2 True show "nth2 mi' c' d' = (if c' = c \<and> d \<le> d' \<and> d' < dim b then cell mesh b i d'
                            else nth2 mi c' d')"
        by auto
    qed
    from step o(1,2) lens vals show ?thesis by simp
  qed
qed


lemma dims_fail:
  "mesh_fits mesh b \<Longrightarrow> idx_ok (coords b) i \<Longrightarrow>
    dim b \<le> int (length (nth_int (coords b) i)) \<Longrightarrow>
    0 \<le> d \<Longrightarrow> idx_ok mi c \<Longrightarrow> dim b \<le> int (length (nth_int mi c)) \<Longrightarrow>
    d \<le> d0 \<and> d0 < dim b \<and> \<not> inside mesh b i d0 \<Longrightarrow>
    fst (updateMeshIdx_dims mesh b i c d mi) = PETSC_ERR_MAX_VALUE"
proof (induction mesh b i c d mi rule: updateMeshIdx_dims.induct)
  case (1 mesh b i c d mi)
  note fit = "1.prems"(1,2,3)
  note d0 = "1.prems"(4) and mc = "1.prems"(5) and ml = "1.prems"(6) and bad = "1.prems"(7)
  have True: "d < dim b" using bad by simp
  note acc = mesh_fits_access [OF fit(1) d0 True]
  have row: "idx_ok (nth_int (coords b) i) d" using fit(3) True d0 by (simp add: idx_ok_def)
  have mrow: "idx_ok (nth_int mi c) d" using ml True d0 by (simp add: idx_ok_def)
  have notA: "\<not> \<not> (idx_ok (mesh_min mesh) d \<and> idx_ok (coords b) i \<and> idx_ok (nth_int (coords b) i) d)"
    using acc row fit(2) by simp
  have notC: "\<not> \<not> idx_ok (mesh_max mesh) d" using acc by simp
  have notE: "\<not> \<not> (idx_ok (mesh_coord mesh) 4 \<and> idx_ok (nth_int (mesh_coord mesh) 4) d \<and>
                 idx_ok (mesh_n mesh) 4 \<and> idx_ok (nth_int (mesh_n mesh) 4) d \<and>
                 0 \<le> nth2 (mesh_n mesh) 4 d \<and>
                 nth2 (mesh_n mesh) 4 d \<le> int (length (nth2 (mesh_coord mesh) 4 d)) \<and>
                 idx_ok mi c \<and> idx_ok (nth_int mi c) d)"
    using acc mrow mc by simp
  show ?case
  proof (cases "inside mesh b i d")
    case False
    then show ?thesis using True notA notC
      by (subst updateMeshIdx_dims.simps) (auto simp: inside_def)
  next
    case ins: True
    let ?v = "cell mesh b i d"
    let ?mi1 = "mi[nat c := (nth_int mi c)[nat d := ?v]]"
    have notB: "\<not> fp_ge (nth_int (mesh_min mesh) d) (nth2 (coords b) i d)"
      using ins by (simp add: inside_def)
    have notD: "\<not> fp_le (nth_int (mesh_max mesh) d) (nth2 (coords b) i d)"
      using ins by (simp add: inside_def)
    have step: "updateMeshIdx_dims mesh b i c d mi = updateMeshIdx_dims mesh b i c (d + 1) ?mi1"
      using True notA notB notC notD notE
      by (subst updateMeshIdx_dims.simps) (simp add: cell_def)
    have c1: "idx_ok ?mi1 c" using mc by simp
    have r1: "nth_int ?mi1 c = (nth_int mi c)[nat d := ?v]"
      using nth_int_upd [OF mc, of c] mc by (simp add: idx_ok_def)
    have l1: "dim b \<le> int (length (nth_int ?mi1 c))" using ml by (simp add: r1)
    have d1: "0 \<le> d + 1" using d0 by simp
    have "d0 \<noteq> d" using bad ins by auto
    then have bad1: "d + 1 \<le> d0 \<and> d0 < dim b \<and> \<not> inside mesh b i d0" using bad by simp
    from "1.IH" [OF True notA notB notC notD notE fit, folded cell_def, OF d1 c1 l1 bad1] step
    show ?thesis by simp
  qed
qed

lemma pts_ok:
  "mesh_fits mesh b \<Longrightarrow>
    \<forall>i'. i \<le> i' \<and> i' < edPt b \<longrightarrow>
       idx_ok (coords b) i' \<and> dim b \<le> int (length (nth_int (coords b) i')) \<Longrightarrow>
    0 \<le> c \<Longrightarrow> i < edPt b \<longrightarrow> c + (edPt b - i) \<le> int (length mi) \<Longrightarrow>
    \<forall>c'. idx_ok mi c' \<longrightarrow> dim b \<le> int (length (nth_int mi c')) \<Longrightarrow>
    \<forall>i' d'. i \<le> i' \<and> i' < edPt b \<and> 0 \<le> d' \<and> d' < dim b \<longrightarrow> inside mesh b i' d' \<Longrightarrow>
    \<exists>mi'. updateMeshIdx_pts mesh b i c mi = (PETSC_SUCCESS, mi') \<and>
      length mi' = length mi \<and>
      (\<forall>c'. idx_ok mi c' \<longrightarrow> length (nth_int mi' c') = length (nth_int mi c')) \<and>
      (\<forall>c' d'. idx_ok mi c' \<and> 0 \<le> d' \<longrightarrow>
          nth2 mi' c' d' =
            (if c \<le> c' \<and> c' < c + (edPt b - i) \<and> d' < dim b
             then cell mesh b (i + (c' - c)) d' else nth2 mi c' d'))"
proof (induction mesh b i c mi rule: updateMeshIdx_pts.induct)
  case (1 mesh b i c mi)
  note fit = "1.prems"(1) and rows = "1.prems"(2) and c0 = "1.prems"(3)
    and room = "1.prems"(4) and ml = "1.prems"(5) and allin = "1.prems"(6)
  show ?case
  proof (cases "i < edPt b")
    case False
    then show ?thesis by (auto simp: updateMeshIdx_pts.simps [of mesh b i c mi])
  next
    case True
    have ci: "idx_ok (coords b) i" "dim b \<le> int (length (nth_int (coords b) i))"
      using rows True by simp_all
    have mc: "idx_ok mi c" using c0 room True by (simp add: idx_ok_def)
    have mlc: "dim b \<le> int (length (nth_int mi c))" using ml mc by simp
    have in0: "\<forall>d'. 0 \<le> d' \<and> d' < dim b \<longrightarrow> inside mesh b i d'" using allin True by simp
    from dims_ok [OF fit ci _ mc mlc in0]
    obtain mi1 where o1: "updateMeshIdx_dims mesh b i c 0 mi = (PETSC_SUCCESS, mi1)"
      "length mi1 = length mi"
      "\<forall>c'. idx_ok mi c' \<longrightarrow> length (nth_int mi1 c') = length (nth_int mi c')"
      "\<forall>c' d'. idx_ok mi c' \<and> 0 \<le> d' \<longrightarrow>
          nth2 mi1 c' d' = (if c' = c \<and> 0 \<le> d' \<and> d' < dim b then cell mesh b i d'
                            else nth2 mi c' d')"
      by auto
    have same: "idx_ok mi1 c' = idx_ok mi c'" for c' using o1(2) by (simp add: idx_ok_def)
    have step: "updateMeshIdx_pts mesh b i c mi = updateMeshIdx_pts mesh b (i + 1) (c + 1) mi1"
      using True o1(1) by (subst updateMeshIdx_pts.simps) simp
    have p2: "\<forall>i'. i + 1 \<le> i' \<and> i' < edPt b \<longrightarrow>
       idx_ok (coords b) i' \<and> dim b \<le> int (length (nth_int (coords b) i'))"
      using rows by simp
    have p3: "0 \<le> c + 1" using c0 by simp
    have p4: "i + 1 < edPt b \<longrightarrow> c + 1 + (edPt b - (i + 1)) \<le> int (length mi1)"
      using room True o1(2) by simp
    have p5: "\<forall>c'. idx_ok mi1 c' \<longrightarrow> dim b \<le> int (length (nth_int mi1 c'))"
      using ml o1(3) same by simp
    have p6: "\<forall>i' d'. i + 1 \<le> i' \<and> i' < edPt b \<and> 0 \<le> d' \<and> d' < dim b \<longrightarrow> inside mesh b i' d'"
      using allin by simp
    have ne: "\<not> PETSC_SUCCESS \<noteq> PETSC_SUCCESS" by simp
    from "1.IH" [OF True o1(1) [symmetric] ne fit p2 p3 p4 p5 p6]
    obtain mi' where o: "updateMeshIdx_pts mesh b (i + 1) (c + 1) mi1 = (PETSC_SUCCESS, mi')"
      "length mi' = length mi1"
      "\<forall>c'. idx_ok mi1 c' \<longrightarrow> length (nth_int mi' c') = length (nth_int mi1 c')"
      "\<forall>c' d'. idx_ok mi1 c' \<and> 0 \<le> d' \<longrightarrow>
          nth2 mi' c' d' =
            (if c + 1 \<le> c' \<and> c' < c + 1 + (edPt b - (i + 1)) \<and> d' < dim b
             then cell mesh b (i + 1 + (c' - (c + 1))) d' else nth2 mi1 c' d')"
      by blast
    have lens: "\<forall>c'. idx_ok mi c' \<longrightarrow> length (nth_int mi' c') = length (nth_int mi c')"
      using o(3) o1(3) same by simp
    have vals: "\<forall>c' d'. idx_ok mi c' \<and> 0 \<le> d' \<longrightarrow>
          nth2 mi' c' d' =
            (if c \<le> c' \<and> c' < c + (edPt b - i) \<and> d' < dim b
             then cell mesh b (i + (c' - c)) d' else nth2 mi c' d')"
    proof (intro allI impI)
      fix c' d' :: int assume a: "idx_ok mi c' \<and> 0 \<le> d'"
      have e1: "nth2 mi' c' d' =
            (if c + 1 \<le> c' \<and> c' < c + 1 + (edPt b - (i + 1)) \<and> d' < dim b
             then cell mesh b (i + 1 + (c' - (c + 1))) d' else nth2 mi1 c' d')"
        using o(4) a same by simp
      have e2: "nth2 mi1 c' d' = (if c' = c \<and> 0 \<le> d' \<and> d' < dim b then cell mesh b i d'
                            else nth2 mi c' d')"
        using o1(4) a by simp
      have e3: "i + 1 + (c' - (c + 1)) = i + (c' - c)" by simp
      show "nth2 mi' c' d' =
            (if c \<le> c' \<and> c' < c + (edPt b - i) \<and> d' < dim b
             then cell mesh b (i + (c' - c)) d' else nth2 mi c' d')"
      proof (cases "c' = c")
        case True
        then show ?thesis using e1 e2 a \<open>i < edPt b\<close> by simp
      next
        case False
        then show ?thesis using e1 e2 e3 by auto
      qed
    qed
    from step o(1,2) o1(2) lens vals show ?thesis by simp
  qed
qed


lemma pts_fail:
  "mesh_fits mesh b \<Longrightarrow>
    \<forall>i'. i \<le> i' \<and> i' < edPt b \<longrightarrow>
       idx_ok (coords b) i' \<and> dim b \<le> int (length (nth_int (coords b) i')) \<Longrightarrow>
    0 \<le> c \<Longrightarrow> i < edPt b \<longrightarrow> c + (edPt b - i) \<le> int (length mi) \<Longrightarrow>
    \<forall>c'. idx_ok mi c' \<longrightarrow> dim b \<le> int (length (nth_int mi c')) \<Longrightarrow>
    i \<le> i0 \<and> i0 < edPt b \<and> 0 \<le> d0 \<and> d0 < dim b \<and> \<not> inside mesh b i0 d0 \<Longrightarrow>
    fst (updateMeshIdx_pts mesh b i c mi) = PETSC_ERR_MAX_VALUE"
proof (induction mesh b i c mi rule: updateMeshIdx_pts.induct)
  case (1 mesh b i c mi)
  note fit = "1.prems"(1) and rows = "1.prems"(2) and c0 = "1.prems"(3)
    and room = "1.prems"(4) and ml = "1.prems"(5) and bad = "1.prems"(6)
  have True: "i < edPt b" using bad by simp
  have ci: "idx_ok (coords b) i" "dim b \<le> int (length (nth_int (coords b) i))"
    using rows True by simp_all
  have mc: "idx_ok mi c" using c0 room True by (simp add: idx_ok_def)
  have mlc: "dim b \<le> int (length (nth_int mi c))" using ml mc by simp
  show ?case
  proof (cases "\<forall>d'. 0 \<le> d' \<and> d' < dim b \<longrightarrow> inside mesh b i d'")
    case in0: True
    from dims_ok [OF fit ci _ mc mlc in0]
    obtain mi1 where o1: "updateMeshIdx_dims mesh b i c 0 mi = (PETSC_SUCCESS, mi1)"
      "length mi1 = length mi"
      "\<forall>c'. idx_ok mi c' \<longrightarrow> length (nth_int mi1 c') = length (nth_int mi c')"
      by auto
    have same: "idx_ok mi1 c' = idx_ok mi c'" for c' using o1(2) by (simp add: idx_ok_def)
    have step: "updateMeshIdx_pts mesh b i c mi = updateMeshIdx_pts mesh b (i + 1) (c + 1) mi1"
      using True o1(1) by (subst updateMeshIdx_pts.simps) simp
    have p2: "\<forall>i'. i + 1 \<le> i' \<and> i' < edPt b \<longrightarrow>
       idx_ok (coords b) i' \<and> dim b \<le> int (length (nth_int (coords b) i'))"
      using rows by simp
    have p3: "0 \<le> c + 1" using c0 by simp
    have p4: "i + 1 < edPt b \<longrightarrow> c + 1 + (edPt b - (i + 1)) \<le> int (length mi1)"
      using room True o1(2) by simp
    have p5: "\<forall>c'. idx_ok mi1 c' \<longrightarrow> dim b \<le> int (length (nth_int mi1 c'))"
      using ml o1(3) same by simp
    have "i0 \<noteq> i" using bad in0 by auto
    then have p6: "i + 1 \<le> i0 \<and> i0 < edPt b \<and> 0 \<le> d0 \<and> d0 < dim b \<and> \<not> inside mesh b i0 d0"
      using bad by simp
    have ne: "\<not> PETSC_SUCCESS \<noteq> PETSC_SUCCESS" by simp
    from "1.IH" [OF True o1(1) [symmetric] ne fit p2 p3 p4 p5 p6] step show ?thesis by simp
  next
    case False
    then obtain d1 where d1: "0 \<le> d1 \<and> d1 < dim b \<and> \<not> inside mesh b i d1" by blast
    have "fst (updateMeshIdx_dims mesh b i c 0 mi) = PETSC_ERR_MAX_VALUE"
      by (rule dims_fail [OF fit ci _ mc mlc d1]) simp
    then show ?thesis using True
      by (subst updateMeshIdx_pts.simps) (auto split: prod.splits)
  qed
qed

lemma arrays_fit_pre:
  assumes "arrays_fit mesh b"
  shows "mesh_fits mesh b"
    and "\<forall>i'. bgPt b \<le> i' \<and> i' < edPt b \<longrightarrow>
       idx_ok (coords b) i' \<and> dim b \<le> int (length (nth_int (coords b) i'))"
    and "bgPt b < edPt b \<longrightarrow> 0 + (edPt b - bgPt b) \<le> int (length (meshIdx b))"
    and "\<forall>c'. idx_ok (meshIdx b) c' \<longrightarrow> dim b \<le> int (length (nth_int (meshIdx b) c'))"
proof -
  show "mesh_fits mesh b" using assms by (simp add: arrays_fit_def)
  show "\<forall>i'. bgPt b \<le> i' \<and> i' < edPt b \<longrightarrow>
       idx_ok (coords b) i' \<and> dim b \<le> int (length (nth_int (coords b) i'))"
    using assms by (auto simp: arrays_fit_def idx_ok_def nth_int_def list_all_length)
  show "bgPt b < edPt b \<longrightarrow> 0 + (edPt b - bgPt b) \<le> int (length (meshIdx b))"
    using assms by (simp add: arrays_fit_def)
  show "\<forall>c'. idx_ok (meshIdx b) c' \<longrightarrow> dim b \<le> int (length (nth_int (meshIdx b) c'))"
    using assms by (auto simp: arrays_fit_def idx_ok_def nth_int_def list_all_length)
qed

lemma updateMeshIdx_coords: "coords (snd (updateMeshIdx mesh b)) = coords b"
  by (simp add: updateMeshIdx_def split: prod.splits)

lemma updateMeshIdx_cases:
  assumes fit: "arrays_fit mesh b"
  shows "(\<forall>i d. bgPt b \<le> i \<and> i < edPt b \<and> 0 \<le> d \<and> d < dim b \<longrightarrow> inside mesh b i d) \<Longrightarrow>
      fst (updateMeshIdx mesh b) = PETSC_SUCCESS"
    and "bgPt b \<le> i \<and> i < edPt b \<and> 0 \<le> d \<and> d < dim b \<and> \<not> inside mesh b i d \<Longrightarrow>
      fst (updateMeshIdx mesh b) = PETSC_ERR_MAX_VALUE"
proof -
  note pre = arrays_fit_pre [OF fit]
  show "fst (updateMeshIdx mesh b) = PETSC_SUCCESS"
    if "\<forall>i d. bgPt b \<le> i \<and> i < edPt b \<and> 0 \<le> d \<and> d < dim b \<longrightarrow> inside mesh b i d"
    using pts_ok [OF pre(1,2) _ pre(3,4) that] by (auto simp: updateMeshIdx_def)
  show "fst (updateMeshIdx mesh b) = PETSC_ERR_MAX_VALUE"
    if "bgPt b \<le> i \<and> i < edPt b \<and> 0 \<le> d \<and> d < dim b \<and> \<not> inside mesh b i d"
    using pts_fail [OF pre(1,2) _ pre(3,4) that] by (auto simp: updateMeshIdx_def split: prod.splits)
qed

subsection \<open>The cell index\<close>

lemma fp_lt_imp_le: "fp_lt x y \<Longrightarrow> fp_le x y"
  by (cases x; cases y) auto

lemma ascending_nth: "ascending a \<Longrightarrow> j < length a \<Longrightarrow> a ! j \<noteq> NaN"
  by (auto simp: ascending_def in_set_conv_nth)

lemma cell_index_last_le:
  assumes asc: "ascending a" and x: "x \<noteq> NaN"
  shows "- 1 \<le> cell_index a (int (length a)) x"
    and "cell_index a (int (length a)) x < int (length a)"
    and "j < length a \<Longrightarrow> (int j \<le> cell_index a (int (length a)) x) = fp_le (a ! j) x"
proof -
  let ?u = "upper_bound fp_lt a 0 (length a) x"
  note part = partitioned_ascending [OF asc, of x]
  have k: "cell_index a (int (length a)) x = int ?u - 1" by (simp add: cell_index_def)
  show "- 1 \<le> cell_index a (int (length a)) x" by (simp add: k)
  show "cell_index a (int (length a)) x < int (length a)"
    using upper_bound_whole(1) [OF part] by (simp add: k)
  show "(int j \<le> cell_index a (int (length a)) x) = fp_le (a ! j) x" if j: "j < length a"
  proof (cases "j < ?u")
    case True
    have "\<not> fp_lt x (a ! j)" using upper_bound_whole(2) [OF part True] .
    then have "fp_le (a ! j) x" using fp_not_lt [OF x ascending_nth [OF asc j]] by simp
    with True show ?thesis by (simp add: k)
  next
    case False
    then have "fp_lt x (a ! j)" using upper_bound_whole(3) [OF part, of j] j by simp
    then have "\<not> fp_le (a ! j) x" using fp_not_le [OF ascending_nth [OF asc j] x] by simp
    with False show ?thesis by (simp add: k)
  qed
qed

lemma cell_index_span:
  assumes asc: "ascending a" and ne: "a \<noteq> []" and x: "x \<noteq> NaN"
    and lo: "fp_le (hd a) mn" "\<not> fp_ge mn x"
    and hi: "fp_le mx (last a)" "\<not> fp_le mx x"
  shows "0 \<le> cell_index a (int (length a)) x"
    and "cell_index a (int (length a)) x + 1 < int (length a)"
proof -
  note ch = cell_index_last_le [OF asc x]
  have len: "0 < length a" using ne by simp
  have mn: "mn \<noteq> NaN" using lo(1) by auto
  have mx: "mx \<noteq> NaN" using hi(1) by auto
  have "fp_lt mn x" using lo(2) fp_not_le [OF x mn] by (simp add: fp_ge_def)
  with lo(1) have "fp_lt (hd a) x" by (rule fp_le_lt_trans)
  then have "fp_le (a ! 0) x" using ne by (simp add: fp_lt_imp_le hd_conv_nth)
  with ch(3) [OF len] show "0 \<le> cell_index a (int (length a)) x" by simp
  have "fp_lt x mx" using hi(2) fp_not_le [OF mx x] by simp
  then have "fp_lt x (last a)" using hi(1) by (rule fp_lt_le_trans)
  then have "fp_lt x (a ! (length a - 1))" using ne by (simp add: last_conv_nth)
  moreover have "a ! (length a - 1) \<noteq> NaN" using ascending_nth [OF asc, of "length a - 1"] len by simp
  ultimately have "\<not> fp_le (a ! (length a - 1)) x" using fp_not_le [OF _ x] by simp
  with ch(3) [of "length a - 1"] len
  have "\<not> int (length a - 1) \<le> cell_index a (int (length a)) x" by simp
  then show "cell_index a (int (length a)) x + 1 < int (length a)" using len by linarith
qed

lemma mesh2_body1_fit: "arrays_fit mesh2 body1 \<and> coords_span mesh2 body1"
  by (simp add: arrays_fit_def mesh_fits_def coords_span_def ascending_def
      body1_def mesh2_def upt_rec)

lemma mesh2_body1_run:
  "updateMeshIdx mesh2 body1 = (PETSC_SUCCESS, body1\<lparr> meshIdx := [[1, 0]] \<rparr>)"
  by (simp add: updateMeshIdx_def updateMeshIdx_pts.simps updateMeshIdx_dims.simps
      body1_def mesh2_def idx_ok_def nth_int_def nth2_def cell_index_def upper_bound.simps
      fp_ge_def)

subsection \<open>The print loop\<close>




subsection \<open>The force loops\<close>











subsection \<open>Monotonicity of the two branches of the kernel\<close>

lemma sqrt_quarter: "sqrt (1 / 4) = 1 / 2"
  by (simp add: real_sqrt_divide)

lemma kernel_inner_decreasing:
  fixes x y :: real
  assumes "0 \<le> x" "x < y"
  shows "(1 + sqrt (1 - 3 * y\<^sup>2)) / 3 < (1 + sqrt (1 - 3 * x\<^sup>2)) / 3"
proof -
  have "x\<^sup>2 < y\<^sup>2" using assms by (simp add: power_strict_mono)
  then have "1 - 3 * y\<^sup>2 < 1 - 3 * x\<^sup>2" by simp
  then have "sqrt (1 - 3 * y\<^sup>2) < sqrt (1 - 3 * x\<^sup>2)" by simp
  then show ?thesis by simp
qed

lemma sqrt_ge_half:
  fixes u :: real
  assumes "\<bar>u\<bar> \<le> 1 / 2"
  shows "1 / 2 \<le> sqrt (1 - 3 * u\<^sup>2)"
proof -
  have "u\<^sup>2 \<le> (1 / 2)\<^sup>2" using assms by (simp add: abs_le_square_iff [symmetric])
  then have "1 / 4 \<le> 1 - 3 * u\<^sup>2" by (simp add: power2_eq_square)
  then have "sqrt (1 / 4) \<le> sqrt (1 - 3 * u\<^sup>2)" by simp
  then show ?thesis by (simp add: sqrt_quarter)
qed

lemma kernel_outer_decreasing:
  fixes x y :: real
  assumes "1 / 2 \<le> x" "x < y" "y \<le> 3 / 2"
  shows "(5 - 3 * y - sqrt (1 - 3 * (1 - y)\<^sup>2)) / 6 < (5 - 3 * x - sqrt (1 - 3 * (1 - x)\<^sup>2)) / 6"
proof -
  define u where "u = x - 1"
  define v where "v = y - 1"
  define a where "a = sqrt (1 - 3 * u\<^sup>2)"
  define b where "b = sqrt (1 - 3 * v\<^sup>2)"
  have uv: "u < v" "\<bar>u\<bar> \<le> 1 / 2" "\<bar>v\<bar> \<le> 1 / 2" "u < 1 / 2"
    unfolding u_def v_def using assms by linarith+
  have a: "1 / 2 \<le> a" and b: "1 / 2 \<le> b"
    using sqrt_ge_half uv by (simp_all add: a_def b_def)
  have nn: "0 \<le> 1 - 3 * u\<^sup>2" "0 \<le> 1 - 3 * v\<^sup>2"
  proof -
    have "u\<^sup>2 \<le> (1 / 2)\<^sup>2" "v\<^sup>2 \<le> (1 / 2)\<^sup>2" using uv by (simp_all add: abs_le_square_iff [symmetric])
    then show "0 \<le> 1 - 3 * u\<^sup>2" "0 \<le> 1 - 3 * v\<^sup>2" by (simp_all add: power2_eq_square)
  qed
  have a2: "a * a = 1 - 3 * u\<^sup>2" and b2: "b * b = 1 - 3 * v\<^sup>2"
    using nn by (simp_all add: a_def b_def)
  have prod: "(a - b) * (a + b) = 3 * (v - u) * (v + u)"
  proof -
    have "(a - b) * (a + b) = a * a - b * b" by (simp add: algebra_simps)
    also have "\<dots> = 3 * (v\<^sup>2 - u\<^sup>2)" by (simp add: a2 b2)
    also have "\<dots> = 3 * (v - u) * (v + u)" by (simp add: power2_eq_square algebra_simps)
    finally show ?thesis .
  qed
  have less: "v + u < a + b" using uv a b by linarith
  have pos: "0 < 3 * (v - u)" using uv by simp
  have "3 * (v - u) * (v + u) < 3 * (v - u) * (a + b)"
    using less pos by (rule mult_strict_left_mono)
  then have "(a - b) * (a + b) < 3 * (v - u) * (a + b)" by (simp only: prod)
  moreover have "0 < a + b" using a b by linarith
  ultimately have "a - b < 3 * (v - u)" by (simp only: mult_less_cancel_right_pos)
  then have "3 * x + a < 3 * y + b" by (simp add: u_def v_def)
  moreover have "(1 - x)\<^sup>2 = u\<^sup>2" "(1 - y)\<^sup>2 = v\<^sup>2"
    by (simp_all add: u_def v_def power2_commute)
  ultimately show ?thesis by (simp add: a_def b_def)
qed

lemma kernel_join:
  "(5 - 3 * (1 / 2) - sqrt (1 - 3 * (1 - (1 / 2 :: real))\<^sup>2)) / 6 = (1 + sqrt (1 - 3 * (1 / 2)\<^sup>2)) / 3"
proof -
  have "1 - 3 * (1 - (1 / 2 :: real))\<^sup>2 = 1 / 4" by (simp add: power2_eq_square)
  then have e1: "sqrt (1 - 3 * (1 - (1 / 2 :: real))\<^sup>2) = 1 / 2" by (simp only: sqrt_quarter)
  have "1 - 3 * (1 / 2 :: real)\<^sup>2 = 1 / 4" by (simp add: power2_eq_square)
  then have e2: "sqrt (1 - 3 * (1 / 2 :: real)\<^sup>2) = 1 / 2" by (simp only: sqrt_quarter)
  show ?thesis unfolding e1 e2 by simp
qed

subsection \<open>The example runs\<close>

lemma bs3_on_ranks: "on_ranks 5 2 bs3"
  by (simp add: on_ranks_def bs3_def fresh_body_def upt_rec)




subsection \<open>The partition and the offset table\<close>

text \<open>
  C4 (as the code has it). Let \<open>P \<ge> 1\<close> ranks run \<^verbatim>\<open>createDMDA\<close> collectively for
  \<open>N \<ge> 0\<close> markers of dimension \<open>dim \<ge> 0\<close>, every call into PETSc and MPI succeeding,
  and let \<open>N\<close>, \<open>N * dim\<close>, the entry \<open>offsets[0]\<close> found in the table and that entry
  plus \<open>N * dim\<close> be representable as \<^verbatim>\<open>PetscInt\<close>. Then every rank succeeds; the ranges
  \<open>[bgPt, edPt)\<close> start at \<open>0\<close>, each begins where the one before ends, the last ends
  at \<open>N\<close>, every marker index in \<open>[0, N)\<close> lies in exactly one of them, and the
  \<open>nLclPts\<close> add up to \<open>N\<close>. On every rank the offset table has one entry per rank,
  keeps the entry \<open>offsets[0]\<close> it had before the call (the function never writes it),
  grows from rank \<open>q\<close> to rank \<open>q + 1\<close> by \<open>dim * nLclPts\<close> of rank \<open>q\<close>, and is
  sorted. The blocks are those of the regular distribution of a one-dimensional
  distributed array, \<open>DMDA_local_info\<close>.
\<close>

theorem C4_partition_offsets:
  assumes on: "on_ranks N D bs"
    and N: "0 \<le> N" "N < 2 ^ 31" and D: "0 \<le> D" and ND: "N * D < 2 ^ 31"
    and c0: "\<forall>r<length bs. is_PetscInt (offsetsAllProcs (bs ! r) ! 0) \<and>
               is_PetscInt (offsetsAllProcs (bs ! r) ! 0 + N * D)"
  shows "list_all (\<lambda>x. fst x = PETSC_SUCCESS) (createDMDA_ranks bs) \<and>
    length (rank_bodies bs) = length bs \<and>
    bgPt (rank_bodies bs ! 0) = 0 \<and>
    (\<forall>r. Suc r < length bs \<longrightarrow>
       bgPt (rank_bodies bs ! Suc r) = edPt (rank_bodies bs ! r)) \<and>
    edPt (last (rank_bodies bs)) = N \<and>
    (\<forall>r<length bs. 0 \<le> nLclPts (rank_bodies bs ! r) \<and>
       edPt (rank_bodies bs ! r) = bgPt (rank_bodies bs ! r) + nLclPts (rank_bodies bs ! r)) \<and>
    sum_list (map nLclPts (rank_bodies bs)) = N \<and>
    (\<forall>i. 0 \<le> i \<and> i < N \<longrightarrow>
       (\<exists>!r. r < length bs \<and> bgPt (rank_bodies bs ! r) \<le> i \<and> i < edPt (rank_bodies bs ! r))) \<and>
    (\<forall>r<length bs.
       length (offsetsAllProcs (rank_bodies bs ! r)) = length bs \<and>
       offsetsAllProcs (rank_bodies bs ! r) ! 0 = offsetsAllProcs (bs ! r) ! 0 \<and>
       (\<forall>q. Suc q < length bs \<longrightarrow>
          offsetsAllProcs (rank_bodies bs ! r) ! Suc q =
            offsetsAllProcs (rank_bodies bs ! r) ! q + D * nLclPts (rank_bodies bs ! q)) \<and>
       sorted (offsetsAllProcs (rank_bodies bs ! r)))"
proof -
  let ?P = "length bs"
  let ?rs = "rank_bodies bs"
  define S where "S k = (\<Sum>j<k. info_xm (DMDA_local_info N (int ?P) (int j)))" for k
  have P: "0 < ?P" using on by (simp add: on_ranks_def)
  have c0r: "is_PetscInt (offsetsAllProcs (bs ! r) ! 0)"
    "is_PetscInt (offsetsAllProcs (bs ! r) ! 0 + N * D)" if "r < ?P" for r
    using c0 that by simp_all
  note nth = createDMDA_ranks_nth [OF on N D c0r ND, folded S_def]
  have lrs: "length ?rs = ?P" by (simp add: rank_bodies_def createDMDA_ranks_def)
  have xm: "\<forall>j<?P. 0 \<le> info_xm (DMDA_local_info N (int ?P) (int j))"
    using info_xm_nonneg [OF N(1) P] by simp
  have mono: "\<forall>j<?P. S j \<le> S (Suc j)" using xm by (simp add: S_def)
  have SP: "S ?P = N" unfolding S_def by (rule regular_total [OF N(1) P])
  have c1: "list_all (\<lambda>x. fst x = PETSC_SUCCESS) (createDMDA_ranks bs)"
    using nth(1) by (simp add: list_all_length createDMDA_ranks_def)
  have c3: "bgPt (?rs ! 0) = 0" using nth(2) [OF P P P] by (simp add: S_def)
  have c4: "\<forall>r. Suc r < ?P \<longrightarrow> bgPt (?rs ! Suc r) = edPt (?rs ! r)"
    using nth(2,4) by (simp add: S_def)
  have c5: "edPt (last ?rs) = N"
  proof -
    have "?rs \<noteq> []" using lrs P by auto
    then have "last ?rs = ?rs ! (?P - 1)" using lrs by (simp add: last_conv_nth)
    then show ?thesis using nth(4) [of "?P - 1"] P SP by simp
  qed
  have c6: "\<forall>r<?P. 0 \<le> nLclPts (?rs ! r) \<and> edPt (?rs ! r) = bgPt (?rs ! r) + nLclPts (?rs ! r)"
    using nth(2,3,4) xm by (simp add: S_def)
  have c7: "sum_list (map nLclPts ?rs) = N"
  proof -
    have "map nLclPts ?rs = map (\<lambda>j. info_xm (DMDA_local_info N (int ?P) (int j))) [0..<?P]"
      using lrs nth(3) by (intro nth_equalityI) auto
    then have "sum_list (map nLclPts ?rs) = S ?P"
      by (simp add: S_def sum_list_sum_nth atLeast0LessThan)
    then show ?thesis using SP by simp
  qed
  have c8: "\<forall>i. 0 \<le> i \<and> i < N \<longrightarrow>
       (\<exists>!r. r < ?P \<and> bgPt (?rs ! r) \<le> i \<and> i < edPt (?rs ! r))"
  proof (intro allI impI)
    fix i assume i: "0 \<le> i \<and> i < N"
    have "S 0 \<le> i" "i < S ?P" using i SP by (simp_all add: S_def)
    from block_exists [OF this] obtain r where r: "r < ?P" "S r \<le> i" "i < S (Suc r)" by blast
    show "\<exists>!r. r < ?P \<and> bgPt (?rs ! r) \<le> i \<and> i < edPt (?rs ! r)"
    proof (rule ex1I [of _ r])
      show "r < ?P \<and> bgPt (?rs ! r) \<le> i \<and> i < edPt (?rs ! r)"
        using r nth(2,4) by simp
    next
      fix q assume "q < ?P \<and> bgPt (?rs ! q) \<le> i \<and> i < edPt (?rs ! q)"
      then have q: "q < ?P" "S q \<le> i" "i < S (Suc q)" using nth(2,4) by auto
      from block_unique [OF mono q r] show "q = r" .
    qed
  qed
  have c9: "\<forall>r<?P.
       length (offsetsAllProcs (?rs ! r)) = ?P \<and>
       offsetsAllProcs (?rs ! r) ! 0 = offsetsAllProcs (bs ! r) ! 0 \<and>
       (\<forall>q. Suc q < ?P \<longrightarrow>
          offsetsAllProcs (?rs ! r) ! Suc q = offsetsAllProcs (?rs ! r) ! q + D * nLclPts (?rs ! q)) \<and>
       sorted (offsetsAllProcs (?rs ! r))"
  proof (intro allI impI)
    fix r assume r: "r < ?P"
    let ?off = "offsetsAllProcs (?rs ! r)"
    let ?c = "offsetsAllProcs (bs ! r) ! 0"
    have lo: "length ?off = ?P" using nth(5) [OF r r r] .
    have vo: "\<forall>k<?P. ?off ! k = ?c + D * S k" using nth(6) [OF r r r] .
    have z: "?off ! 0 = ?c" using vo P by (simp add: S_def)
    have step: "\<forall>q. Suc q < ?P \<longrightarrow> ?off ! Suc q = ?off ! q + D * nLclPts (?rs ! q)"
      using vo nth(3) by (simp add: S_def algebra_simps)
    have "sorted ?off"
    proof (subst sorted_iff_nth_Suc, intro allI impI)
      fix k assume "Suc k < length ?off"
      then have k: "Suc k < ?P" using lo by simp
      then have "S k \<le> S (Suc k)" using mono by simp
      then have "D * S k \<le> D * S (Suc k)" using D by (rule mult_left_mono)
      then show "?off ! k \<le> ?off ! Suc k" using vo k by simp
    qed
    with lo z step show "length ?off = ?P \<and> ?off ! 0 = ?c \<and>
       (\<forall>q. Suc q < ?P \<longrightarrow> ?off ! Suc q = ?off ! q + D * nLclPts (?rs ! q)) \<and> sorted ?off"
      by blast
  qed
  from c1 lrs c3 c4 c5 c6 c7 c8 c9 show ?thesis by blast
qed

theorem C4_partition_offsets_witness:
  "on_ranks 5 2 bs3 \<and>
   list_all (\<lambda>x. fst x = PETSC_SUCCESS) (createDMDA_ranks bs3) \<and>
   bgPt (rank_bodies bs3 ! 0) = 0 \<and>
   edPt (last (rank_bodies bs3)) = 5 \<and>
   sum_list (map nLclPts (rank_bodies bs3)) = 5 \<and>
   sorted (offsetsAllProcs (rank_bodies bs3 ! 1))"
proof -
  have h1: "on_ranks 5 2 bs3" by (rule bs3_on_ranks)
  have h2: "(0::int) \<le> 5" "(5::int) < 2 ^ 31" "(0::int) \<le> 2" "(5::int) * 2 < 2 ^ 31" by simp_all
  have h3: "\<forall>r<length bs3. is_PetscInt (offsetsAllProcs (bs3 ! r) ! 0) \<and>
               is_PetscInt (offsetsAllProcs (bs3 ! r) ! 0 + 5 * 2)"
    by (simp add: bs3_def fresh_body_def is_PetscInt_def nth_Cons split: nat.splits)
  have l: "(1::nat) < length bs3" by (simp add: bs3_def)
  from C4_partition_offsets [OF h1 h2 h3] h1 l show ?thesis by blast
qed

text \<open>
  Without the bound the claim fails: for \<open>2 ^ 31 - 1\<close> markers of dimension 2 on two
  ranks the first rank owns \<open>2 ^ 30\<close> markers, \<open>it *= dim\<close> wraps to \<open>- 2 ^ 31\<close>, and the
  offset table \<open>[0, - 2 ^ 31]\<close> is neither the prefix sum nor sorted.
\<close>

theorem C4_overflow_counterexample:
  "on_ranks 2147483647 2 bs_big \<and>
   map fst (createDMDA_ranks bs_big) = [PETSC_SUCCESS, PETSC_SUCCESS] \<and>
   map nLclPts (rank_bodies bs_big) = [1073741824, 1073741823] \<and>
   offsetsAllProcs (rank_bodies bs_big ! 0) = [0, - 2147483648] \<and>
   \<not> sorted (offsetsAllProcs (rank_bodies bs_big ! 0))"
  by (simp add: on_ranks_def bs_big_def fresh_body_def upt_rec rank_bodies_def
      createDMDA_ranks_def createDMDA_def DMDA_local_info_def Let_def
      offsets_shift.simps offsets_accum.simps idx_ok_def nth_int_def
      addI_def mulI_def wrapInt_def eval_nat_numeral)

subsection \<open>Mesh indices of the markers\<close>

text \<open>
  C2 (as the code has it). Let the arrays fit, and let the cell-boundary array of
  every direction be in ascending order, free of NaN and span the domain: its first
  entry is \<open><= mesh->min[d]\<close> and its last \<open>>= mesh->max[d]\<close>. After a successful
  \<^verbatim>\<open>updateMeshIdx\<close>, for every locally owned marker \<open>i\<close> and every direction \<open>d\<close> whose
  coordinate \<open>x = coords[i][d]\<close> is not NaN, the stored index \<open>k\<close> (row \<open>i - bgPt\<close> of
  \<^verbatim>\<open>meshIdx\<close>) is the index of the last cell boundary that is less than \<^emph>\<open>or equal to\<close>
  \<open>x\<close>: \<open>0 \<le> k\<close>, \<open>k + 1 < n\<close>, \<open>coord[k] <= x\<close>, \<open>x < coord[k + 1]\<close>, and an entry \<open>j\<close> of
  the boundary array is \<open><= x\<close> exactly when \<open>j \<le> k\<close>.
\<close>

theorem C2_meshIdx_last_le:
  assumes fit: "arrays_fit mesh b" and span: "coords_span mesh b"
    and ok: "updateMeshIdx mesh b = (PETSC_SUCCESS, b')"
    and i: "bgPt b \<le> i" "i < edPt b" and d: "0 \<le> d" "d < dim b"
    and x: "nth2 (coords b) i d \<noteq> NaN"
  shows "0 \<le> nth2 (meshIdx b') (i - bgPt b) d \<and>
    nth2 (meshIdx b') (i - bgPt b) d + 1 < int (length (nth2 (mesh_coord mesh) 4 d)) \<and>
    fp_le (nth_int (nth2 (mesh_coord mesh) 4 d) (nth2 (meshIdx b') (i - bgPt b) d))
      (nth2 (coords b) i d) \<and>
    fp_lt (nth2 (coords b) i d)
      (nth_int (nth2 (mesh_coord mesh) 4 d) (nth2 (meshIdx b') (i - bgPt b) d + 1)) \<and>
    (\<forall>j<length (nth2 (mesh_coord mesh) 4 d).
       (int j \<le> nth2 (meshIdx b') (i - bgPt b) d) =
       fp_le (nth2 (mesh_coord mesh) 4 d ! j) (nth2 (coords b) i d))"
proof -
  note pre = arrays_fit_pre [OF fit]
  let ?a = "nth2 (mesh_coord mesh) 4 d"
  let ?x = "nth2 (coords b) i d"
  let ?k = "nth2 (meshIdx b') (i - bgPt b) d"
  have allin: "\<forall>i d. bgPt b \<le> i \<and> i < edPt b \<and> 0 \<le> d \<and> d < dim b \<longrightarrow> inside mesh b i d"
  proof (rule ccontr)
    assume "\<not> ?thesis"
    then obtain i d where "bgPt b \<le> i \<and> i < edPt b \<and> 0 \<le> d \<and> d < dim b \<and> \<not> inside mesh b i d"
      by blast
    from updateMeshIdx_cases(2) [OF fit this] ok show False by simp
  qed
  from pts_ok [OF pre(1,2) _ pre(3,4) allin]
  obtain mi' where o: "updateMeshIdx_pts mesh b (bgPt b) 0 (meshIdx b) = (PETSC_SUCCESS, mi')"
    "\<forall>c' d'. idx_ok (meshIdx b) c' \<and> 0 \<le> d' \<longrightarrow>
          nth2 mi' c' d' =
            (if 0 \<le> c' \<and> c' < 0 + (edPt b - bgPt b) \<and> d' < dim b
             then cell mesh b (bgPt b + (c' - 0)) d' else nth2 (meshIdx b) c' d')"
    by auto
  have mi: "meshIdx b' = mi'" using ok o(1) by (auto simp: updateMeshIdx_def)
  have "idx_ok (meshIdx b) (i - bgPt b)" using i pre(3) by (simp add: idx_ok_def)
  with o(2) i d have k: "?k = cell mesh b i d" by (simp add: mi)
  have n: "nth2 (mesh_n mesh) 4 d = int (length ?a)"
    using mesh_fits_access(8) [OF pre(1) d] .
  have a: "?a = mesh_coord mesh ! 4 ! nat d" by (simp add: nth2_def nth_int_def)
  have "nat d < nat (dim b)" using d by simp
  with span have sp: "?a \<noteq> []" "ascending ?a" "fp_le (hd ?a) (mesh_min mesh ! nat d)"
    "fp_le (mesh_max mesh ! nat d) (last ?a)"
    unfolding a by (simp_all add: coords_span_def list_all_length)
  have ins: "inside mesh b i d" using allin i d by simp
  then have t: "\<not> fp_ge (mesh_min mesh ! nat d) ?x" "\<not> fp_le (mesh_max mesh ! nat d) ?x"
    by (simp_all add: inside_def nth_int_def)
  have kc: "?k = cell_index ?a (int (length ?a)) ?x" by (simp add: k cell_def n)
  note ch = cell_index_last_le [OF sp(2) x, folded kc]
  note cs = cell_index_span [OF sp(2) sp(1) x sp(3) t(1) sp(4) t(2), folded kc]
  have c3: "\<forall>j<length ?a. (int j \<le> ?k) = fp_le (?a ! j) ?x" using ch(3) by blast
  have c4: "fp_le (nth_int ?a ?k) ?x"
  proof -
    have "nat ?k < length ?a" using cs by simp
    with c3 have "(int (nat ?k) \<le> ?k) = fp_le (?a ! nat ?k) ?x" by blast
    with cs(1) show ?thesis by (simp add: nth_int_def)
  qed
  have c5: "fp_lt ?x (nth_int ?a (?k + 1))"
  proof -
    have k1: "nat (?k + 1) < length ?a" using cs by simp
    with c3 have "(int (nat (?k + 1)) \<le> ?k) = fp_le (?a ! nat (?k + 1)) ?x" by blast
    with cs(1) have "\<not> fp_le (?a ! nat (?k + 1)) ?x" by simp
    then have "fp_lt ?x (?a ! nat (?k + 1))"
      using fp_not_le [OF ascending_nth [OF sp(2) k1] x] by simp
    then show ?thesis by (simp add: nth_int_def)
  qed
  from cs c3 c4 c5 show ?thesis by blast
qed

theorem C2_meshIdx_last_le_witness:
  "arrays_fit mesh2 body1 \<and> coords_span mesh2 body1 \<and>
   updateMeshIdx mesh2 body1 = (PETSC_SUCCESS, body1\<lparr> meshIdx := [[1, 0]] \<rparr>) \<and>
   bgPt body1 \<le> 0 \<and> 0 < edPt body1 \<and> (0::int) \<le> 1 \<and> 1 < dim body1 \<and>
   nth2 (coords body1) 0 1 \<noteq> NaN \<and>
   0 \<le> nth2 (meshIdx (body1\<lparr> meshIdx := [[1, 0]] \<rparr>)) (0 - bgPt body1) 1 \<and>
   nth2 (meshIdx (body1\<lparr> meshIdx := [[1, 0]] \<rparr>)) (0 - bgPt body1) 1 + 1
     < int (length (nth2 (mesh_coord mesh2) 4 1))"
proof -
  have h1: "arrays_fit mesh2 body1" and h2: "coords_span mesh2 body1"
    using mesh2_body1_fit by simp_all
  note h3 = mesh2_body1_run
  have h4: "bgPt body1 \<le> 0" "0 < edPt body1" "(0::int) \<le> 1" "1 < dim body1"
    by (simp_all add: body1_def)
  have h5: "nth2 (coords body1) 0 1 \<noteq> NaN" by (simp add: body1_def nth2_def nth_int_def)
  from C2_meshIdx_last_le [OF h1 h2 h3 h4 h5] h1 h2 h3 h4 h5 show ?thesis by blast
qed

text \<open>
  The claim as stated asks for \<open>coord[k] < x\<close>. A marker whose coordinate equals a cell
  boundary refutes it: with boundaries \<open>0, 1, 2\<close> and \<open>x = 1\<close> the stored index is \<open>1\<close>
  and \<open>coord[1] = 1\<close> is not below \<open>x\<close>.
\<close>

theorem C2_strictly_less_counterexample:
  "arrays_fit mesh2 body1 \<and> coords_span mesh2 body1 \<and>
   updateMeshIdx mesh2 body1 = (PETSC_SUCCESS, body1\<lparr> meshIdx := [[1, 0]] \<rparr>) \<and>
   nth2 (coords body1) 0 0 = Num 1 \<and>
   nth_int (nth2 (mesh_coord mesh2) 4 0) 1 = Num 1 \<and>
   \<not> fp_lt (nth_int (nth2 (mesh_coord mesh2) 4 0) 1) (nth2 (coords body1) 0 0)"
  using mesh2_body1_fit mesh2_body1_run
  by (simp add: body1_def mesh2_def nth_int_def nth2_def)

text \<open>
  C3 (as the code has it). When the arrays fit, \<^verbatim>\<open>updateMeshIdx\<close> returns an error
  exactly when some locally owned marker \<open>i\<close> has, in some direction \<open>d < dim\<close>, a
  coordinate \<open>x\<close> for which one of the tests \<^verbatim>\<open>mesh->min[d] >= x\<close>, \<^verbatim>\<open>mesh->max[d] <= x\<close>
  of the code holds. When no local coordinate and no bound of the domain is NaN,
  that is the case exactly when some local coordinate is not strictly between
  \<^verbatim>\<open>mesh->min[d]\<close> and \<^verbatim>\<open>mesh->max[d]\<close> (a coordinate equal to a bound fails too). The
  error is \<^verbatim>\<open>PETSC_ERR_MAX_VALUE\<close>, and the marker coordinates are the same after the
  call as before it, on the failing path as on the successful one.
\<close>

theorem C3_updateMeshIdx_fails_iff:
  assumes "arrays_fit mesh b"
  shows "(fst (updateMeshIdx mesh b) \<noteq> PETSC_SUCCESS \<longleftrightarrow>
            (\<exists>i d. bgPt b \<le> i \<and> i < edPt b \<and> 0 \<le> d \<and> d < dim b \<and>
               (fp_ge (nth_int (mesh_min mesh) d) (nth2 (coords b) i d) \<or>
                fp_le (nth_int (mesh_max mesh) d) (nth2 (coords b) i d)))) \<and>
         ((\<forall>i d. bgPt b \<le> i \<and> i < edPt b \<and> 0 \<le> d \<and> d < dim b \<longrightarrow>
              nth2 (coords b) i d \<noteq> NaN \<and> nth_int (mesh_min mesh) d \<noteq> NaN \<and>
              nth_int (mesh_max mesh) d \<noteq> NaN) \<longrightarrow>
          (fst (updateMeshIdx mesh b) \<noteq> PETSC_SUCCESS \<longleftrightarrow>
            (\<exists>i d. bgPt b \<le> i \<and> i < edPt b \<and> 0 \<le> d \<and> d < dim b \<and>
               \<not> (fp_lt (nth_int (mesh_min mesh) d) (nth2 (coords b) i d) \<and>
                  fp_lt (nth2 (coords b) i d) (nth_int (mesh_max mesh) d))))) \<and>
         (fst (updateMeshIdx mesh b) \<noteq> PETSC_SUCCESS \<longleftrightarrow>
            fst (updateMeshIdx mesh b) = PETSC_ERR_MAX_VALUE) \<and>
         coords (snd (updateMeshIdx mesh b)) = coords b"
proof -
  let ?loc = "\<lambda>i d. bgPt b \<le> i \<and> i < edPt b \<and> 0 \<le> d \<and> d < dim b"
  let ?bad = "\<exists>i d. ?loc i d \<and> \<not> inside mesh b i d"
  have a: "?bad \<Longrightarrow> fst (updateMeshIdx mesh b) = PETSC_ERR_MAX_VALUE"
    using updateMeshIdx_cases(2) [OF assms] by blast
  have b: "\<not> ?bad \<Longrightarrow> fst (updateMeshIdx mesh b) = PETSC_SUCCESS"
    using updateMeshIdx_cases(1) [OF assms] by blast
  have c: "(fst (updateMeshIdx mesh b) \<noteq> PETSC_SUCCESS) = ?bad"
  proof (cases ?bad)
    case True
    with a [OF True] show ?thesis by simp
  next
    case False
    with b [OF False] show ?thesis by simp
  qed
  have e: "(fst (updateMeshIdx mesh b) \<noteq> PETSC_SUCCESS) =
      (fst (updateMeshIdx mesh b) = PETSC_ERR_MAX_VALUE)"
  proof (cases ?bad)
    case True
    with a [OF True] show ?thesis by simp
  next
    case False
    with b [OF False] show ?thesis by simp
  qed
  have c1: "(fst (updateMeshIdx mesh b) \<noteq> PETSC_SUCCESS) =
      (\<exists>i d. ?loc i d \<and>
         (fp_ge (nth_int (mesh_min mesh) d) (nth2 (coords b) i d) \<or>
          fp_le (nth_int (mesh_max mesh) d) (nth2 (coords b) i d)))"
    unfolding c by (simp add: inside_def)
  have c2: "(fst (updateMeshIdx mesh b) \<noteq> PETSC_SUCCESS) =
      (\<exists>i d. ?loc i d \<and>
         \<not> (fp_lt (nth_int (mesh_min mesh) d) (nth2 (coords b) i d) \<and>
            fp_lt (nth2 (coords b) i d) (nth_int (mesh_max mesh) d)))"
    if nn: "\<forall>i d. ?loc i d \<longrightarrow>
              nth2 (coords b) i d \<noteq> NaN \<and> nth_int (mesh_min mesh) d \<noteq> NaN \<and>
              nth_int (mesh_max mesh) d \<noteq> NaN"
  proof -
    have "inside mesh b i d =
        (fp_lt (nth_int (mesh_min mesh) d) (nth2 (coords b) i d) \<and>
         fp_lt (nth2 (coords b) i d) (nth_int (mesh_max mesh) d))" if "?loc i d" for i d
    proof -
      from nn that have n: "nth2 (coords b) i d \<noteq> NaN" "nth_int (mesh_min mesh) d \<noteq> NaN"
        "nth_int (mesh_max mesh) d \<noteq> NaN" by blast+
      show ?thesis
        unfolding inside_def fp_ge_def
        using fp_not_le [OF n(1) n(2)] fp_not_le [OF n(3) n(1)] by simp
    qed
    then show ?thesis unfolding c by blast
  qed
  show ?thesis
  proof (intro conjI impI)
    show "coords (snd (updateMeshIdx mesh b)) = coords b" by (rule updateMeshIdx_coords)
    show "(fst (updateMeshIdx mesh b) \<noteq> PETSC_SUCCESS) =
      (fst (updateMeshIdx mesh b) = PETSC_ERR_MAX_VALUE)" by (rule e)
    show "(fst (updateMeshIdx mesh b) \<noteq> PETSC_SUCCESS) =
      (\<exists>i d. bgPt b \<le> i \<and> i < edPt b \<and> 0 \<le> d \<and> d < dim b \<and>
         (fp_ge (nth_int (mesh_min mesh) d) (nth2 (coords b) i d) \<or>
          fp_le (nth_int (mesh_max mesh) d) (nth2 (coords b) i d)))"
      unfolding c1 by blast
    show "(fst (updateMeshIdx mesh b) \<noteq> PETSC_SUCCESS) =
      (\<exists>i d. bgPt b \<le> i \<and> i < edPt b \<and> 0 \<le> d \<and> d < dim b \<and>
         \<not> (fp_lt (nth_int (mesh_min mesh) d) (nth2 (coords b) i d) \<and>
            fp_lt (nth2 (coords b) i d) (nth_int (mesh_max mesh) d)))"
      if "\<forall>i d. bgPt b \<le> i \<and> i < edPt b \<and> 0 \<le> d \<and> d < dim b \<longrightarrow>
              nth2 (coords b) i d \<noteq> NaN \<and> nth_int (mesh_min mesh) d \<noteq> NaN \<and>
              nth_int (mesh_max mesh) d \<noteq> NaN"
      unfolding c2 [OF that] by blast
  qed
qed

theorem C3_updateMeshIdx_fails_iff_witness:
  "arrays_fit mesh2 body_edge \<and>
   fst (updateMeshIdx mesh2 body_edge) = PETSC_ERR_MAX_VALUE \<and>
   coords (snd (updateMeshIdx mesh2 body_edge)) = [[Num 1, Num 2]]"
proof -
  have h: "arrays_fit mesh2 body_edge"
    by (simp add: arrays_fit_def mesh_fits_def body_edge_def body1_def mesh2_def upt_rec)
  have d01: "d = 0 \<or> d = 1" if "0 \<le> d \<and> d < dim body_edge" for d
    using that by (auto simp: body_edge_def body1_def)
  have nn: "\<forall>i d. bgPt body_edge \<le> i \<and> i < edPt body_edge \<and> 0 \<le> d \<and> d < dim body_edge \<longrightarrow>
      nth2 (coords body_edge) i d \<noteq> NaN \<and> nth_int (mesh_min mesh2) d \<noteq> NaN \<and>
      nth_int (mesh_max mesh2) d \<noteq> NaN"
  proof (intro allI impI)
    fix i d
    assume l: "bgPt body_edge \<le> i \<and> i < edPt body_edge \<and> 0 \<le> d \<and> d < dim body_edge"
    then have "i = 0" by (simp add: body_edge_def body1_def)
    moreover have "d = 0 \<or> d = 1" using l d01 by blast
    ultimately show "nth2 (coords body_edge) i d \<noteq> NaN \<and> nth_int (mesh_min mesh2) d \<noteq> NaN \<and>
      nth_int (mesh_max mesh2) d \<noteq> NaN"
      by (auto simp: body_edge_def body1_def mesh2_def nth_int_def nth2_def)
  qed
  have "bgPt body_edge \<le> 0 \<and> 0 < edPt body_edge \<and> (0::int) \<le> 1 \<and> 1 < dim body_edge \<and>
      \<not> (fp_lt (nth_int (mesh_min mesh2) 1) (nth2 (coords body_edge) 0 1) \<and>
         fp_lt (nth2 (coords body_edge) 0 1) (nth_int (mesh_max mesh2) 1))"
    by (simp add: body_edge_def body1_def mesh2_def nth_int_def nth2_def)
  then have bad: "\<exists>i d. bgPt body_edge \<le> i \<and> i < edPt body_edge \<and> 0 \<le> d \<and> d < dim body_edge \<and>
      \<not> (fp_lt (nth_int (mesh_min mesh2) d) (nth2 (coords body_edge) i d) \<and>
         fp_lt (nth2 (coords body_edge) i d) (nth_int (mesh_max mesh2) d))"
    by blast
  have c: "coords body_edge = [[Num 1, Num 2]]" by (simp add: body_edge_def)
  from C3_updateMeshIdx_fails_iff [OF h] nn bad
  have "fst (updateMeshIdx mesh2 body_edge) = PETSC_ERR_MAX_VALUE"
    and "coords (snd (updateMeshIdx mesh2 body_edge)) = coords body_edge"
    by blast+
  with h c show ?thesis by simp
qed

text \<open>
  A coordinate that is NaN is not strictly inside the domain, and the call succeeds
  all the same: both tests are false of NaN, the search finds no boundary above it
  and the index stored is \<open>n - 1 = 2\<close>, that of the last boundary.
\<close>

theorem C3_NaN_counterexample:
  "arrays_fit mesh2 body_nan \<and>
   bgPt body_nan \<le> 0 \<and> 0 < edPt body_nan \<and> (0::int) \<le> 0 \<and> 0 < dim body_nan \<and>
   nth2 (coords body_nan) 0 0 = NaN \<and>
   \<not> (fp_lt (nth_int (mesh_min mesh2) 0) (nth2 (coords body_nan) 0 0) \<and>
      fp_lt (nth2 (coords body_nan) 0 0) (nth_int (mesh_max mesh2) 0)) \<and>
   updateMeshIdx mesh2 body_nan = (PETSC_SUCCESS, body_nan\<lparr> meshIdx := [[2, 0]] \<rparr>)"
  by (simp add: arrays_fit_def mesh_fits_def upt_rec
      updateMeshIdx_def updateMeshIdx_pts.simps updateMeshIdx_dims.simps
      body_nan_def body1_def mesh2_def idx_ok_def nth_int_def nth2_def cell_index_def
      upper_bound.simps fp_ge_def)

subsection \<open>Owner of a marker\<close>

text \<open>
  C5 (as the code has it). Take the body \<open>b\<close> of any rank after the collective
  \<^verbatim>\<open>createDMDA\<close> of C4, with \<open>dim > 0\<close>, \<open>N \<ge> 0\<close> markers, \<open>N * dim\<close> representable as
  \<^verbatim>\<open>PetscInt\<close>, and offset tables whose entry \<open>0\<close> was \<open>0\<close> before the call. For every
  marker index \<open>0 \<le> i < N\<close>, \<^verbatim>\<open>findProc\<close> succeeds with a rank \<open>p\<close> of the communicator
  such that \<open>offsets[p] \<le> i * dim\<close>, \<open>i * dim\<close> is below \<open>offsets[p]\<close> plus the degrees
  of freedom of rank \<open>p\<close>, it is below \<open>offsets[p + 1]\<close> when there is a rank
  \<open>p + 1\<close>, and marker \<open>i\<close> lies in the range \<open>[bgPt, edPt)\<close> of rank \<open>p\<close>. For \<open>i\<close>
  outside \<open>[0, N)\<close> it returns \<^verbatim>\<open>PETSC_ERR_ARG_SIZ\<close> and leaves \<open>p\<close> alone. For every
  \<open>0 \<le> i < N\<close> and \<open>0 \<le> d < dim\<close>, \<^verbatim>\<open>getGlobalIndex\<close> succeeds with \<open>i * dim + d\<close>, and
  two successful calls that give the same index had the same marker and the same
  degree of freedom.
\<close>

theorem C5_owner_roundtrip:
  assumes on: "on_ranks N D bs"
    and N: "0 \<le> N" and D: "0 < D" and ND: "N * D < 2 ^ 31"
    and z: "\<forall>q<length bs. offsetsAllProcs (bs ! q) ! 0 = 0"
    and r: "r < length bs"
    and b: "b = rank_bodies bs ! r"
  shows "(\<forall>i p0. 0 \<le> i \<and> i < N \<longrightarrow>
           (\<exists>p. findProc b i p0 = (PETSC_SUCCESS, int p) \<and> p < length bs \<and>
              offsetsAllProcs b ! p \<le> i * D \<and>
              i * D < offsetsAllProcs b ! p + nLclAllProcs b ! p \<and>
              (Suc p < length bs \<longrightarrow> i * D < offsetsAllProcs b ! Suc p) \<and>
              bgPt (rank_bodies bs ! p) \<le> i \<and> i < edPt (rank_bodies bs ! p))) \<and>
         (\<forall>i p0. i < 0 \<or> N \<le> i \<longrightarrow> findProc b i p0 = (PETSC_ERR_ARG_SIZ, p0)) \<and>
         (\<forall>i d x. 0 \<le> i \<and> i < N \<and> 0 \<le> d \<and> d < D \<longrightarrow>
            getGlobalIndex b i d x = (PETSC_SUCCESS, i * D + d)) \<and>
         (\<forall>i d x i' d' x' g.
            getGlobalIndex b i d x = (PETSC_SUCCESS, g) \<and>
            getGlobalIndex b i' d' x' = (PETSC_SUCCESS, g) \<longrightarrow> i = i' \<and> d = d')"
proof -
  let ?P = "length bs"
  let ?off = "offsetsAllProcs b"
  let ?xm = "\<lambda>j. info_xm (DMDA_local_info N (int ?P) (int j))"
  define S where "S k = (\<Sum>j<k. info_xm (DMDA_local_info N (int ?P) (int j)))" for k
  have P: "0 < ?P" using r by linarith
  have "N * 1 \<le> N * D" using N D by (intro mult_left_mono) simp_all
  then have N31: "N < 2 ^ 31" using ND by simp
  have D0: "0 \<le> D" using D by simp
  have ND0: "0 \<le> N * D" using N D by simp
  have c0r: "is_PetscInt (offsetsAllProcs (bs ! q) ! 0)"
    "is_PetscInt (offsetsAllProcs (bs ! q) ! 0 + N * D)" if "q < ?P" for q
    using z that ND0 ND by (simp_all add: is_PetscInt_def)
  note nth = createDMDA_ranks_nth [OF on N N31 D0 c0r ND, folded S_def]
  have each: "nPts (bs ! r) = N \<and> dim (bs ! r) = D"
    using on r by (simp add: on_ranks_def list_all_length)
  have dimb: "dim b = D" using createDMDA_ranks_frame(1) [OF r] each b by simp
  have nb: "nPts b = N" using createDMDA_ranks_frame(2) [OF r] each b by simp
  have lo: "length ?off = ?P" using nth(5) [OF r r r] b by simp
  have vo: "\<forall>k<?P. ?off ! k = D * S k" using nth(6) [OF r r r] z r b by simp
  have xm: "\<forall>j<?P. 0 \<le> ?xm j" using info_xm_nonneg [OF N P] by simp
  have mono: "\<forall>j<?P. S j \<le> S (Suc j)" using xm by (simp add: S_def)
  have sorted: "sorted ?off"
  proof (subst sorted_iff_nth_Suc, intro allI impI)
    fix k assume "Suc k < length ?off"
    then have k: "Suc k < ?P" using lo by simp
    then have "S k \<le> S (Suc k)" using mono by simp
    then have "D * S k \<le> D * S (Suc k)" using D by simp
    then show "?off ! k \<le> ?off ! Suc k" using vo k by simp
  qed
  have SP: "S ?P = N" unfolding S_def by (rule regular_total [OF N P])
  have part1: "\<exists>p. findProc b i p0 = (PETSC_SUCCESS, int p) \<and> p < ?P \<and>
              ?off ! p \<le> i * D \<and> i * D < ?off ! p + nLclAllProcs b ! p \<and>
              (Suc p < ?P \<longrightarrow> i * D < ?off ! Suc p) \<and>
              bgPt (rank_bodies bs ! p) \<le> i \<and> i < edPt (rank_bodies bs ! p)"
    if i: "0 \<le> i \<and> i < N" for i p0
  proof -
    have "0 \<le> i * D" "i * D \<le> i * D + 0" "i * D + 0 < N * D"
      using dof_index_range [of i N 0 D] i D by simp_all
    then have "is_PetscInt (i * D)" using ND by (simp add: is_PetscInt_def)
    then have mul: "mulI i D = i * D" by (rule mulI_id)
    note part = partitioned_sorted [OF sorted, of "i * D"]
    define u where "u = upper_bound (<) ?off 0 (length ?off) (i * D)"
    have uP: "u \<le> ?P" using upper_bound_whole(1) [OF part] lo by (simp add: u_def)
    have u0: "0 < u"
    proof (rule ccontr)
      assume "\<not> 0 < u"
      then have "u \<le> 0" by simp
      moreover have "0 < length ?off" using lo r by linarith
      ultimately have "i * D < ?off ! 0"
        using upper_bound_whole(3) [OF part, of 0] by (simp add: u_def)
      moreover have "?off ! 0 = 0" using vo P by (simp add: S_def)
      ultimately show False using i D by (simp add: mult_less_0_iff)
    qed
    define p where "p = u - 1"
    have pu: "u = Suc p" "p < ?P" using u0 uP by (simp_all add: p_def)
    have fp: "findProc b i p0 = (PETSC_SUCCESS, int p)"
      using i nb dimb pu by (simp add: findProc_def mul u_def [symmetric])
    have "\<not> i * D < ?off ! p"
      using upper_bound_whole(2) [OF part, of p] pu by (simp add: u_def)
    then have le: "?off ! p \<le> i * D" by simp
    then have "D * S p \<le> D * i" using vo pu by (simp add: mult.commute)
    then have Sp: "S p \<le> i" using D by simp
    have nxt: "i * D < ?off ! Suc p" if "Suc p < ?P"
      using upper_bound_whole(3) [OF part, of "Suc p"] pu that lo by (simp add: u_def)
    have Ssp: "i < S (Suc p)"
    proof (cases "Suc p < ?P")
      case True
      from nxt [OF True] have "D * i < D * S (Suc p)" using vo True by (simp add: mult.commute)
      then show ?thesis using D by simp
    next
      case False
      then have "Suc p = ?P" using pu by simp
      then show ?thesis using SP i by simp
    qed
    have nl: "nLclAllProcs b ! p = D * ?xm p"
      using nth(7) [OF r r r] b pu by (simp add: mult.commute)
    have "i * D < D * S (Suc p)" using Ssp D by (simp add: mult.commute)
    also have "\<dots> = ?off ! p + nLclAllProcs b ! p"
      using vo pu nl by (simp add: S_def algebra_simps)
    finally have rng: "i * D < ?off ! p + nLclAllProcs b ! p" .
    have own: "bgPt (rank_bodies bs ! p) \<le> i \<and> i < edPt (rank_bodies bs ! p)"
      using nth(2,4) [OF pu(2) pu(2) pu(2)] Sp Ssp by simp
    from fp pu(2) le rng nxt own show ?thesis by blast
  qed
  have part2: "findProc b i p0 = (PETSC_ERR_ARG_SIZ, p0)" if "i < 0 \<or> N \<le> i" for i p0
    using that nb by (auto simp: findProc_def)
  have part3: "getGlobalIndex b i d x = (PETSC_SUCCESS, i * D + d)"
    if "0 \<le> i \<and> i < N \<and> 0 \<le> d \<and> d < D" for i d x
    using getGlobalIndex_exact [of i b d x] that ND by (simp add: nb dimb)
  have part4: "i = i' \<and> d = d'"
    if h: "getGlobalIndex b i d x = (PETSC_SUCCESS, g) \<and> getGlobalIndex b i' d' x' = (PETSC_SUCCESS, g)"
    for i d x i' d' x' g
  proof -
    from h have v: "0 \<le> i \<and> i < N \<and> 0 \<le> d \<and> d < D" "0 \<le> i' \<and> i' < N \<and> 0 \<le> d' \<and> d' < D"
      by (auto simp: getGlobalIndex_def dimb nb split: if_splits)
    from part3 [OF v(1), of x] part3 [OF v(2), of x'] h have "i * D + d = i' * D + d'" by simp
    with v have "0 \<le> d" "d < D" "0 \<le> d'" "d' < D" "i * D + d = i' * D + d'" by simp_all
    then show ?thesis by (rule global_index_inj)
  qed
  from part1 part2 part3 part4 show ?thesis by blast
qed

theorem C5_owner_roundtrip_witness:
  "on_ranks 5 2 bs3 \<and> 1 < length bs3 \<and>
   (\<exists>p. findProc (rank_bodies bs3 ! 1) 3 0 = (PETSC_SUCCESS, int p) \<and> p < length bs3 \<and>
      bgPt (rank_bodies bs3 ! p) \<le> 3 \<and> 3 < edPt (rank_bodies bs3 ! p)) \<and>
   findProc (rank_bodies bs3 ! 1) 5 0 = (PETSC_ERR_ARG_SIZ, 0) \<and>
   getGlobalIndex (rank_bodies bs3 ! 1) 3 1 0 = (PETSC_SUCCESS, 7)"
proof -
  have h1: "on_ranks 5 2 bs3" by (rule bs3_on_ranks)
  have h2: "(0::int) \<le> 5" "(0::int) < 2" "(5::int) * 2 < 2 ^ 31" by simp_all
  have h3: "\<forall>q<length bs3. offsetsAllProcs (bs3 ! q) ! 0 = 0"
    by (simp add: bs3_def fresh_body_def nth_Cons split: nat.splits)
  have h5: "1 < length bs3" by (simp add: bs3_def)
  from C5_owner_roundtrip [OF h1 h2 h3 h5 refl]
  have a: "\<forall>i p0. 0 \<le> i \<and> i < 5 \<longrightarrow>
           (\<exists>p. findProc (rank_bodies bs3 ! 1) i p0 = (PETSC_SUCCESS, int p) \<and> p < length bs3 \<and>
              bgPt (rank_bodies bs3 ! p) \<le> i \<and> i < edPt (rank_bodies bs3 ! p))"
    and b: "\<forall>i p0. i < 0 \<or> 5 \<le> i \<longrightarrow>
           findProc (rank_bodies bs3 ! 1) i p0 = (PETSC_ERR_ARG_SIZ, p0)"
    and c: "\<forall>i d x. 0 \<le> i \<and> i < 5 \<and> 0 \<le> d \<and> d < 2 \<longrightarrow>
            getGlobalIndex (rank_bodies bs3 ! 1) i d x = (PETSC_SUCCESS, i * 2 + d)"
    by blast+
  from a [rule_format, of 3 0] b [rule_format, of 5 0] c [rule_format, of 3 1 0] h1 h5
  show ?thesis by simp
qed

text \<open>
  Without the bound on \<open>N * dim\<close> the owner is lost: on a single rank holding
  \<open>2 ^ 31 - 1\<close> markers of dimension 2, the product \<open>i * dim\<close> for \<open>i = 2 ^ 30\<close> wraps to
  \<open>- 2 ^ 31\<close>, which is below \<open>offsets[0] = 0\<close>, and \<^verbatim>\<open>findProc\<close> returns the rank
  \<open>- 1\<close> with the success code.
\<close>

theorem C5_overflow_counterexample:
  "createDMDA_ranks [fresh_body 2 1 0 2147483647 []] = [(PETSC_SUCCESS, body_big)] \<and>
   0 \<le> (1073741824::int) \<and> 1073741824 < nPts body_big \<and>
   offsetsAllProcs body_big = [0] \<and>
   findProc body_big 1073741824 0 = (PETSC_SUCCESS, - 1)"
  by (simp add: findProc_def body_big_def fresh_body_def mulI_def wrapInt_def
      upper_bound.simps createDMDA_ranks_def createDMDA_def DMDA_local_info_def Let_def
      offsets_shift.simps offsets_accum.simps addI_def)

subsection \<open>Global indices\<close>

text \<open>
  C6 (as the code has it). \<^verbatim>\<open>getGlobalIndex(i, dof, idx)\<close> succeeds exactly when
  \<open>0 \<le> i < nPts\<close> and \<open>0 \<le> dof < dim\<close>; when moreover \<open>nPts * dim\<close> is representable as
  \<^verbatim>\<open>PetscInt\<close> it stores \<open>i * dim + dof\<close> in \<open>idx\<close>. In every other case it returns the
  out-of-range code \<^verbatim>\<open>PETSC_ERR_ARG_SIZ\<close> and leaves \<open>idx\<close> as it was.
\<close>

theorem C6_getGlobalIndex:
  "(0 \<le> i \<and> i < nPts b \<and> 0 \<le> dof \<and> dof < dim b \<and> nPts b * dim b < 2 ^ 31
      \<longrightarrow> getGlobalIndex b i dof idx = (PETSC_SUCCESS, i * dim b + dof)) \<and>
   (0 \<le> i \<and> i < nPts b \<and> 0 \<le> dof \<and> dof < dim b
      \<longrightarrow> fst (getGlobalIndex b i dof idx) = PETSC_SUCCESS) \<and>
   (\<not> (0 \<le> i \<and> i < nPts b \<and> 0 \<le> dof \<and> dof < dim b)
      \<longrightarrow> getGlobalIndex b i dof idx = (PETSC_ERR_ARG_SIZ, idx)) \<and>
   (fst (getGlobalIndex b i dof idx) = PETSC_ERR_ARG_SIZ
      \<longleftrightarrow> (i < 0 \<or> nPts b \<le> i \<or> dof < 0 \<or> dim b \<le> dof))"
proof -
  have "getGlobalIndex b i dof idx = (PETSC_SUCCESS, i * dim b + dof)"
    if "0 \<le> i \<and> i < nPts b \<and> 0 \<le> dof \<and> dof < dim b \<and> nPts b * dim b < 2 ^ 31"
    using that by (intro getGlobalIndex_exact) simp_all
  moreover have "fst (getGlobalIndex b i dof idx) = PETSC_SUCCESS"
    if "0 \<le> i \<and> i < nPts b \<and> 0 \<le> dof \<and> dof < dim b"
    using that by (simp add: getGlobalIndex_def)
  moreover have "getGlobalIndex b i dof idx = (PETSC_ERR_ARG_SIZ, idx)"
    if "\<not> (0 \<le> i \<and> i < nPts b \<and> 0 \<le> dof \<and> dof < dim b)"
    using that by (auto simp: getGlobalIndex_def)
  moreover have "fst (getGlobalIndex b i dof idx) = PETSC_ERR_ARG_SIZ
      \<longleftrightarrow> (i < 0 \<or> nPts b \<le> i \<or> dof < 0 \<or> dim b \<le> dof)"
    by (auto simp: getGlobalIndex_def)
  ultimately show ?thesis by blast
qed

theorem C6_getGlobalIndex_witness:
  "getGlobalIndex body5 3 1 0 = (PETSC_SUCCESS, 7) \<and>
   getGlobalIndex body5 5 1 0 = (PETSC_ERR_ARG_SIZ, 0) \<and>
   getGlobalIndex body5 3 2 0 = (PETSC_ERR_ARG_SIZ, 0)"
  using C6_getGlobalIndex [of 3 body5 1 0] C6_getGlobalIndex [of 5 body5 1 0]
    C6_getGlobalIndex [of 3 body5 2 0]
  by (simp add: body5_def)

text \<open>
  Without the bound the index stored is not \<open>i * dim + dof\<close>: for \<open>2 ^ 31 - 1\<close> markers
  of dimension 2, marker \<open>2 ^ 30\<close> and \<open>dof = 1\<close> the call succeeds with
  \<open>- 2147483647\<close>, where \<open>i * dim + dof = 2147483649\<close>.
\<close>

theorem C6_overflow_counterexample:
  "0 \<le> (1073741824::int) \<and> 1073741824 < nPts body_big \<and> 0 \<le> (1::int) \<and> 1 < dim body_big \<and>
   getGlobalIndex body_big 1073741824 1 0 = (PETSC_SUCCESS, - 2147483647) \<and>
   1073741824 * dim body_big + 1 = 2147483649"
  by (simp add: getGlobalIndex_def body_big_def fresh_body_def addI_def mulI_def wrapInt_def)

subsection \<open>Averaged forces\<close>




subsection \<open>Boundary dispatch\<close>

text \<open>
  C1 (as the code has it). For each of the five enumerators \<^verbatim>\<open>createSingleBoundary\<close>
  constructs the object of the matching class from the four arguments, stores it in
  the output parameter and returns success. The function has no error return at
  all: it returns success for every value of the tag, and for a value that is none
  of the five enumerators it leaves the output parameter as it found it.
\<close>

theorem C1_createSingleBoundary:
  "createSingleBoundary mesh loc field val NOBC sb =
     (PETSC_SUCCESS, Some (SingleBoundaryBase mesh loc field val)) \<and>
   createSingleBoundary mesh loc field val PERIODIC sb =
     (PETSC_SUCCESS, Some (SingleBoundaryPeriodic mesh loc field val)) \<and>
   createSingleBoundary mesh loc field val DIRICHLET sb =
     (PETSC_SUCCESS, Some (SingleBoundaryDirichlet mesh loc field val)) \<and>
   createSingleBoundary mesh loc field val NEUMANN sb =
     (PETSC_SUCCESS, Some (SingleBoundaryNeumann mesh loc field val)) \<and>
   createSingleBoundary mesh loc field val CONVECTIVE sb =
     (PETSC_SUCCESS, Some (SingleBoundaryConvective mesh loc field val)) \<and>
   createSingleBoundary mesh loc field val (BCType_other v) sb = (PETSC_SUCCESS, sb) \<and>
   fst (createSingleBoundary mesh loc field val bcType sb) = PETSC_SUCCESS"
  by (cases bcType) simp_all

text \<open>
  The claim asks for a configuration error on a tag outside the five. On such a tag
  and an empty output pointer the call returns success with the pointer still empty.
\<close>

theorem C1_unrecognized_tag_counterexample:
  "createSingleBoundary mesh2 () () (Num 0) (BCType_other 5) None = (PETSC_SUCCESS, None)"
  by simp

subsection \<open>Writing and initialising the body\<close>



text \<open>
  C10. When the reader succeeds and leaves \<open>coords\<close> empty, the dimension check of
  \<^verbatim>\<open>init\<close> reads \<^verbatim>\<open>coords[0]\<close> of an empty vector: the run ends in that out-of-range
  access, not in the dimension-mismatch error and not in a normal return. When
  \<open>coords\<close> has a first row, the check is well defined: a row whose length differs
  from \<^verbatim>\<open>(unsigned)dim\<close> gives \<^verbatim>\<open>PETSC_ERR_FILE_READ\<close>, and a row of that length lets
  \<^verbatim>\<open>init\<close> run to a successful return (given PETSc and MPI succeed and the per-rank
  tables have one entry per rank).
\<close>

theorem C10_init_first_row:
  "init dim_arg (PETSC_SUCCESS, n, []) petsc mpi g b =
     (OUT_OF_BOUNDS, b\<lparr> nPts := n, coords := [] \<rparr>) \<and>
   (cs \<noteq> [] \<and> dim_arg mod 2 ^ 32 \<noteq> int (length (hd cs)) \<longrightarrow>
      init dim_arg (PETSC_SUCCESS, n, cs) petsc mpi g b =
        (PETSC_ERR_FILE_READ, b\<lparr> nPts := n, coords := cs \<rparr>)) \<and>
   (cs \<noteq> [] \<and> dim_arg mod 2 ^ 32 = int (length (hd cs)) \<and>
    0 < P \<and> mpiSize b = int P \<and> length (nLclAllProcs b) = P \<and>
    length (offsetsAllProcs b) = P \<and> length g = P \<longrightarrow>
      fst (init dim_arg (PETSC_SUCCESS, n, cs) PETSC_SUCCESS PETSC_SUCCESS g b) = PETSC_SUCCESS)"
proof -
  have c1: "init dim_arg (PETSC_SUCCESS, n, []) petsc mpi g b =
      (OUT_OF_BOUNDS, b\<lparr> nPts := n, coords := [] \<rparr>)"
    by (simp add: init_def idx_ok_def)
  have c2: "cs \<noteq> [] \<and> dim_arg mod 2 ^ 32 \<noteq> int (length (hd cs)) \<longrightarrow>
      init dim_arg (PETSC_SUCCESS, n, cs) petsc mpi g b =
        (PETSC_ERR_FILE_READ, b\<lparr> nPts := n, coords := cs \<rparr>)"
    by (cases cs) (simp_all add: init_def idx_ok_def nth_int_def)
  have c3: "fst (init dim_arg (PETSC_SUCCESS, n, cs) PETSC_SUCCESS PETSC_SUCCESS g b) = PETSC_SUCCESS"
    if h: "cs \<noteq> [] \<and> dim_arg mod 2 ^ 32 = int (length (hd cs)) \<and>
      0 < P \<and> mpiSize b = int P \<and> length (nLclAllProcs b) = P \<and>
      length (offsetsAllProcs b) = P \<and> length g = P"
  proof -
    let ?b2 = "b\<lparr> nPts := n, coords := cs, coords0 := cs \<rparr>"
    have "fst (createDMDA PETSC_SUCCESS PETSC_SUCCESS g ?b2) = PETSC_SUCCESS"
      using h by (intro createDMDA_succeeds [of P]) simp_all
    then obtain b3 where "createDMDA PETSC_SUCCESS PETSC_SUCCESS g ?b2 = (PETSC_SUCCESS, b3)"
      by (cases "createDMDA PETSC_SUCCESS PETSC_SUCCESS g ?b2") simp
    with h show ?thesis
      by (cases cs) (simp_all add: init_def idx_ok_def nth_int_def createInfoString_def Let_def)
  qed
  from c1 c2 c3 show ?thesis by blast
qed

theorem C10_init_first_row_witness:
  "init 2 (PETSC_SUCCESS, 0, []) PETSC_SUCCESS PETSC_SUCCESS [2, 2, 1] (fresh_body 2 3 1 0 []) =
     (OUT_OF_BOUNDS, fresh_body 2 3 1 0 []) \<and>
   init 3 (PETSC_SUCCESS, 5, coords body5) PETSC_SUCCESS PETSC_SUCCESS [2, 2, 1]
       (fresh_body 2 3 1 0 []) =
     (PETSC_ERR_FILE_READ, fresh_body 2 3 1 5 (coords body5) \<lparr> coords0 := [] \<rparr>) \<and>
   fst (init 2 (PETSC_SUCCESS, 5, coords body5) PETSC_SUCCESS PETSC_SUCCESS [2, 2, 1]
       (fresh_body 2 3 1 0 [])) = PETSC_SUCCESS"
proof -
  have ne: "coords body5 \<noteq> []" and hd: "length (hd (coords body5)) = 2"
    by (simp_all add: body5_def)
  have m3: "(3::int) mod 2 ^ 32 \<noteq> int (length (hd (coords body5)))" by (simp add: hd)
  have m2: "(2::int) mod 2 ^ 32 = int (length (hd (coords body5)))" by (simp add: hd)
  have al: "0 < (3::nat) \<and> mpiSize (fresh_body 2 3 1 0 []) = int 3 \<and>
      length (nLclAllProcs (fresh_body 2 3 1 0 [])) = 3 \<and>
      length (offsetsAllProcs (fresh_body 2 3 1 0 [])) = 3 \<and> length [2, 2, 1 :: int] = 3"
    by (simp add: fresh_body_def)
  have e1: "fresh_body 2 3 1 0 [] \<lparr> nPts := 0, coords := [] \<rparr> = fresh_body 2 3 1 0 []"
    by (simp add: fresh_body_def)
  have e2: "fresh_body 2 3 1 0 [] \<lparr> nPts := 5, coords := coords body5 \<rparr> =
      fresh_body 2 3 1 5 (coords body5) \<lparr> coords0 := [] \<rparr>"
    by (simp add: fresh_body_def)
  from C10_init_first_row [of 2 0 PETSC_SUCCESS PETSC_SUCCESS "[2, 2, 1]" "fresh_body 2 3 1 0 []"
      "coords body5" 3]
    C10_init_first_row [of 3 5 PETSC_SUCCESS PETSC_SUCCESS "[2, 2, 1]" "fresh_body 2 3 1 0 []"
      "coords body5" 3]
    C10_init_first_row [of 2 5 PETSC_SUCCESS PETSC_SUCCESS "[2, 2, 1]" "fresh_body 2 3 1 0 []"
      "coords body5" 3]
    ne m3 m2 al e1 e2
  show ?thesis by simp
qed

subsection \<open>The delta kernel\<close>

text \<open>
  C8. For a mesh width \<open>h > 0\<close> the kernel is \<open>0\<close> at every distance \<open>r\<close> with
  \<open>\<bar>r\<bar> \<ge> 1.5 h\<close>, it is \<open>2/3\<close> at \<open>r = 0\<close>, and it is strictly decreasing in \<open>\<bar>r\<bar>\<close>
  on its support: of two distances below \<open>1.5 h\<close> the one of larger magnitude has
  the smaller value.
\<close>

theorem C8_delta_kernel:
  assumes h: "0 < h"
  shows "(\<forall>r. 3 / 2 * h \<le> \<bar>r\<bar> \<longrightarrow> Roma_et_al_1999 r h = 0) \<and>
         Roma_et_al_1999 0 h = 2 / 3 \<and>
         (\<forall>r s. \<bar>r\<bar> < \<bar>s\<bar> \<and> \<bar>s\<bar> < 3 / 2 * h \<longrightarrow> Roma_et_al_1999 s h < Roma_et_al_1999 r h)"
proof -
  have zero: "Roma_et_al_1999 r h = 0" if "3 / 2 * h \<le> \<bar>r\<bar>" for r
  proof -
    from that h have "3 / 2 \<le> \<bar>r\<bar> / h" by (simp add: pos_le_divide_eq)
    then show ?thesis by (simp add: Roma_et_al_1999_def)
  qed
  have peak: "Roma_et_al_1999 0 h = 2 / 3" by (simp add: Roma_et_al_1999_def)
  have dec: "Roma_et_al_1999 s h < Roma_et_al_1999 r h" if rs: "\<bar>r\<bar> < \<bar>s\<bar> \<and> \<bar>s\<bar> < 3 / 2 * h" for r s
  proof -
    define x where "x = \<bar>r\<bar> / h"
    define y where "y = \<bar>s\<bar> / h"
    have x0: "0 \<le> x" using h by (simp add: x_def)
    have xy: "x < y" using rs h by (simp add: x_def y_def divide_strict_right_mono)
    have y15: "y < 3 / 2" using rs h by (simp add: y_def pos_divide_less_eq)
    have R: "Roma_et_al_1999 r h =
        (if 1 / 2 < x then (5 - 3 * x - sqrt (1 - 3 * (1 - x)\<^sup>2)) / 6
         else (1 + sqrt (1 - 3 * x\<^sup>2)) / 3)"
      using xy y15 by (simp add: Roma_et_al_1999_def x_def [symmetric])
    have S: "Roma_et_al_1999 s h =
        (if 1 / 2 < y then (5 - 3 * y - sqrt (1 - 3 * (1 - y)\<^sup>2)) / 6
         else (1 + sqrt (1 - 3 * y\<^sup>2)) / 3)"
      using y15 by (simp add: Roma_et_al_1999_def y_def [symmetric])
    consider "y \<le> 1 / 2" | "1 / 2 < x" | "x \<le> 1 / 2" "1 / 2 < y" by linarith
    then show ?thesis
    proof cases
      case 1
      with xy have n: "\<not> 1 / 2 < x" "\<not> 1 / 2 < y" by simp_all
      have Rx: "Roma_et_al_1999 r h = (1 + sqrt (1 - 3 * x\<^sup>2)) / 3"
        using R n(1) by (simp only: if_False)
      have Sy: "Roma_et_al_1999 s h = (1 + sqrt (1 - 3 * y\<^sup>2)) / 3"
        using S n(2) by (simp only: if_False)
      show ?thesis unfolding Rx Sy by (rule kernel_inner_decreasing [OF x0 xy])
    next
      case 2
      with xy have y2: "1 / 2 < y" by simp
      have Rx: "Roma_et_al_1999 r h = (5 - 3 * x - sqrt (1 - 3 * (1 - x)\<^sup>2)) / 6"
        using R 2 by (simp only: if_True)
      have Sy: "Roma_et_al_1999 s h = (5 - 3 * y - sqrt (1 - 3 * (1 - y)\<^sup>2)) / 6"
        using S y2 by (simp only: if_True)
      have "1 / 2 \<le> x" "y \<le> 3 / 2" using 2 y15 by simp_all
      from kernel_outer_decreasing [OF this(1) xy this(2)] show ?thesis unfolding Rx Sy .
    next
      case 3
      have nx: "\<not> 1 / 2 < x" using 3 by simp
      have Rx: "Roma_et_al_1999 r h = (1 + sqrt (1 - 3 * x\<^sup>2)) / 3"
        using R nx by (simp only: if_False)
      have Sy: "Roma_et_al_1999 s h = (5 - 3 * y - sqrt (1 - 3 * (1 - y)\<^sup>2)) / 6"
        using S 3(2) by (simp only: if_True)
      have "(1 / 2 :: real) \<le> 1 / 2" "y \<le> 3 / 2" using y15 by simp_all
      from kernel_outer_decreasing [OF this(1) 3(2) this(2)]
      have "(5 - 3 * y - sqrt (1 - 3 * (1 - y)\<^sup>2)) / 6
          < (5 - 3 * (1 / 2) - sqrt (1 - 3 * (1 - (1 / 2 :: real))\<^sup>2)) / 6" .
      also have "\<dots> = (1 + sqrt (1 - 3 * (1 / 2)\<^sup>2)) / 3" by (rule kernel_join)
      also have "\<dots> \<le> (1 + sqrt (1 - 3 * x\<^sup>2)) / 3"
      proof (cases "x = 1 / 2")
        case True
        then show ?thesis by (simp only: order_refl)
      next
        case False
        with 3 have "x < 1 / 2" by simp
        from kernel_inner_decreasing [OF x0 this] show ?thesis by (rule less_imp_le)
      qed
      finally show ?thesis unfolding Rx Sy .
    qed
  qed
  from zero peak dec show ?thesis by blast
qed

theorem C8_delta_kernel_witness:
  "(0::real) < 1 \<and> Roma_et_al_1999 (3 / 2) 1 = 0 \<and> Roma_et_al_1999 2 1 = 0 \<and>
   Roma_et_al_1999 0 1 = 2 / 3 \<and> Roma_et_al_1999 1 1 < Roma_et_al_1999 (1 / 4) 1"
proof -
  have h: "(0::real) < 1" by simp
  note t = C8_delta_kernel [OF h]
  from t have a: "Roma_et_al_1999 (3 / 2) 1 = 0" by simp
  from t have b: "Roma_et_al_1999 2 1 = 0" by simp
  from t have c: "Roma_et_al_1999 0 1 = 2 / 3" by simp
  have "\<bar>1 / 4 :: real\<bar> < \<bar>1\<bar> \<and> \<bar>1 :: real\<bar> < 3 / 2 * 1" by simp
  with t have d: "Roma_et_al_1999 1 1 < Roma_et_al_1999 (1 / 4) 1" by blast
  from a b c d show ?thesis by simp
qed

end
